theory Spec2Isabelle
  imports Main "HOL-Library.Char_ord" "HOL-Library.List_Lexorder" "HOL-Library.Multiset"
begin

section \<open>Python string operations used by manage_local_batch.py\<close>

text \<open>
  Paths are Python \<open>str\<close> values, modelled as \<open>string\<close> (a list of characters).
  \<open>sorted\<close> on a list of \<open>str\<close> compares lexicographically, character by character,
  which is the order \<open>List_Lexorder\<close> puts on \<open>char list\<close> over \<open>Char_ord\<close>.
\<close>

definition startswith :: "string \<Rightarrow> string \<Rightarrow> bool" where
  \<comment> \<open>\<open>s.startswith(p)\<close>\<close>
  "startswith s p = (take (length p) s = p)"

definition endswith :: "string \<Rightarrow> string \<Rightarrow> bool" where
  \<comment> \<open>\<open>s.endswith(p)\<close>\<close>
  "endswith s p = (length p \<le> length s \<and> drop (length s - length p) s = p)"

fun replace_first :: "string \<Rightarrow> string \<Rightarrow> string \<Rightarrow> string" where
  \<comment> \<open>\<open>s.replace(old, new, 1)\<close>: only the leftmost occurrence of \<open>old\<close> is replaced\<close>
  "replace_first old new [] = (if old = [] then new else [])"
| "replace_first old new (c # cs) =
     (if startswith (c # cs) old then new @ drop (length old) (c # cs)
      else c # replace_first old new cs)"

definition replace_backslashes :: "string \<Rightarrow> string" where
  \<comment> \<open>\<open>s.replace('\\', '/')\<close>: every backslash becomes a forward slash\<close>
  "replace_backslashes s = map (\<lambda>c. if c = CHR 0x5C then CHR ''/'' else c) s"

section \<open>Errors\<close>

text \<open>
  Every \<open>assert\<close> and \<open>raise\<close> of the cells modelled here is a value of this type.
  A bare \<open>assert\<close> carries no message; an \<open>assert\<close> with a message carries what the
  message names.
\<close>

datatype error =
    AssertionError \<comment> \<open>a bare \<open>assert\<close>, no message\<close>
  | ConfigError string \<comment> \<open>an \<open>assert\<close> of the validation cell, with its message\<close>
  | MissingOutputFiles "string list"
      \<comment> \<open>\<open>raise Exception('Missing output files')\<close>, after every missing file is printed\<close>
  | FileNotInResults string nat
      \<comment> \<open>\<open>'File {} not found in results for task {}'\<close>\<close>
  | TooManyFailures nat int
      \<comment> \<open>\<open>'{} failures (max tolerable set to {})'\<close>\<close>
  | CountMismatch nat nat
      \<comment> \<open>\<open>'Expected {} images in combined results, found {}'\<close>\<close>
  | LoadError string
      \<comment> \<open>\<open>open\<close> or \<open>json.load\<close> fails on this path, or the content has another shape\<close>
  | KeyError string
      \<comment> \<open>a key of a task that an earlier cell has not set\<close>

section \<open>Enumerate files: the enumeration branch\<close>

text \<open>
  \<open>path_utils.find_images\<close> is a collaborator; the list it returns is the parameter
  \<open>found\<close>. The cell sorts it, then drops the names the drive root holds.
\<close>

definition recycle_or_system :: "string \<Rightarrow> bool" where
  "recycle_or_system fn =
     (startswith fn ''$RECYCLE'' \<or> startswith fn ''System Volume Information'')"

definition enumerate_images :: "string list \<Rightarrow> string list" where
  "enumerate_images found = filter (\<lambda>fn. \<not> recycle_or_system fn) (sort found)"

section \<open>Convert to relative paths\<close>

text \<open>
  One iteration of the last loop of the merge cell: two asserts, then the input root (or the
  root and a slash) is replaced by the empty string, once.
\<close>

definition make_relative :: "string \<Rightarrow> string \<Rightarrow> error + string" where
  "make_relative root file =
     (if CHR 0x5C \<in> set file then Inl AssertionError
      else if \<not> startswith file root then Inl AssertionError
      else if endswith root '':'' then Inr (replace_first root '''' file)
      else Inr (replace_first (root @ ''/'') '''' file))"

section \<open>Numbers in file names, paths\<close>

text \<open>
  \<open>str(i)\<close> for an integer, \<open>s.zfill(w)\<close>, and the two functions of \<open>os.path\<close> the
  cells call. The model runs where \<open>os.name\<close> is not \<open>'nt'\<close>: \<open>os.path\<close> is
  \<open>posixpath\<close>, and the \<open>if os.name == 'nt'\<close> branches (which change the script
  header, the script extension, the \<open>call\<close> prefix and the form of the device
  selector) are not taken.
\<close>

definition digit_char :: "nat \<Rightarrow> char" where
  "digit_char d = ''0123456789'' ! (d mod 10)"

fun str_nat :: "nat \<Rightarrow> string" where
  "str_nat n = (if n < 10 then [digit_char n] else str_nat (n div 10) @ [digit_char (n mod 10)])"

declare str_nat.simps [simp del]

definition str_int :: "int \<Rightarrow> string" where
  "str_int i = (if i < 0 then ''-'' @ str_nat (nat (- i)) else str_nat (nat i))"

definition zfill :: "nat \<Rightarrow> string \<Rightarrow> string" where
  \<comment> \<open>\<open>s.zfill(w)\<close>: zeros go after a leading sign\<close>
  "zfill w s =
     (if w \<le> length s then s
      else (case s of
              [] \<Rightarrow> replicate w (CHR ''0'')
            | c # cs \<Rightarrow>
                if c = CHR ''+'' \<or> c = CHR ''-''
                then c # replicate (w - length s) (CHR ''0'') @ cs
                else replicate (w - length s) (CHR ''0'') @ s))"

definition isabs :: "string \<Rightarrow> bool" where
  \<comment> \<open>\<open>posixpath.isabs\<close>\<close>
  "isabs s = startswith s ''/''"

definition path_join :: "string \<Rightarrow> string \<Rightarrow> string" where
  \<comment> \<open>\<open>posixpath.join(a, b)\<close>\<close>
  "path_join a b =
     (if startswith b ''/'' then b
      else if a = [] \<or> endswith a ''/'' then a @ b
      else a @ ''/'' @ b)"

section \<open>Configuration\<close>

text \<open>
  The module-level constants the cells read. A value that is \<open>None\<close> or a value is an
  option. Floats appear only inside generated command text, so a float is held as the
  text \<open>str.format\<close> renders. \<open>default_output_confidence_threshold\<close> is the imported
  constant \<open>DEFAULT_OUTPUT_CONFIDENCE_THRESHOLD\<close>, rendered. \<open>filename_base\<close> is the
  job folder the validation cell derives.
\<close>

record config =
  json_threshold :: "string option"
  max_tolerable_failed_images :: int
  use_image_queue :: bool
  default_gpu_number :: int
  quiet_mode :: bool
  image_size :: "int option"
  include_image_size :: bool
  include_image_timestamp :: bool
  include_exif_data :: bool
  detector_options :: "string option"
  ncores :: int
  force_enumeration :: bool
  overwrite_handling :: string
  use_yolo_inference_scripts :: bool
  yolo_working_dir :: "string option"
  yolo_dataset_file :: "string option"
  yolo_model_type :: "string option"
  yolo_batch_size :: int
  remove_yolo_intermediate_results :: bool
  remove_yolo_symlink_folder :: bool
  use_symlinks_for_yolo_inference :: bool
  write_yolo_debug_output :: bool
  augment :: bool
  use_tiled_inference :: bool
  remove_tiles :: bool
  tile_size :: "(int \<times> int) option"
  tile_overlap :: "string option"
  input_path :: string
  model_file :: string
  n_jobs :: int
  n_gpus :: int
  checkpoint_frequency :: "int option"
  default_output_confidence_threshold :: string
  filename_base :: string

definition default_config :: config where
  \<comment> \<open>the values the source file ships with; the job folder, the home directory of
      \<open>yolo_working_dir\<close> and the imported threshold are examples\<close>
  "default_config =
     \<lparr> json_threshold = None,
       max_tolerable_failed_images = 100,
       use_image_queue = False,
       default_gpu_number = 0,
       quiet_mode = True,
       image_size = None,
       include_image_size = False,
       include_image_timestamp = False,
       include_exif_data = False,
       detector_options = None,
       ncores = 1,
       force_enumeration = False,
       overwrite_handling = ''skip'',
       use_yolo_inference_scripts = False,
       yolo_working_dir = Some ''~/git/yolov5'',
       yolo_dataset_file = None,
       yolo_model_type = None,
       yolo_batch_size = 1,
       remove_yolo_intermediate_results = True,
       remove_yolo_symlink_folder = True,
       use_symlinks_for_yolo_inference = True,
       write_yolo_debug_output = False,
       augment = False,
       use_tiled_inference = False,
       remove_tiles = True,
       tile_size = Some (1280, 1280),
       tile_overlap = Some ''0.2'',
       input_path = ''/drive/organization'',
       model_file = ''MDV5A'',
       n_jobs = 2,
       n_gpus = 2,
       checkpoint_frequency = Some 10000,
       default_output_confidence_threshold = ''0.005'',
       filename_base = ''/home/user/postprocessing/org/org-2025-01-01-v5a.0.0'' \<rparr>"

section \<open>Derived variables, constant validation\<close>

text \<open>
  The asserts of the validation cell, in the order of the source. Each carries its
  message. The cell runs before the cells that write files.
\<close>

definition validate_config :: "config \<Rightarrow> error + unit" where
  "validate_config c =
     (if use_image_queue c \<and> checkpoint_frequency c \<noteq> None
        then Inl (ConfigError ''Checkpointing is not supported when using an image queue'')
      else if augment c \<and> checkpoint_frequency c \<noteq> None
        then Inl (ConfigError ''Checkpointing is not supported when using augmentation'')
      else if augment c \<and> \<not> use_yolo_inference_scripts c
        then Inl (ConfigError
          ''Augmentation is only supported when running with the YOLO inference scripts'')
      else if use_tiled_inference c \<and> augment c
        then Inl (ConfigError ''Augmentation is not supported when using tiled inference'')
      else if use_tiled_inference c \<and> use_yolo_inference_scripts c
        then Inl (ConfigError
          ''Using the YOLO inference script is not supported when using tiled inference'')
      else if use_tiled_inference c \<and> checkpoint_frequency c \<noteq> None
        then Inl (ConfigError ''Checkpointing is not supported when using tiled inference'')
      else Inr ())"

section \<open>Result files, tasks and the disk\<close>

text \<open>
  A record of a detector output file: its path, the \<open>failure\<close> key (absent, present
  and null, or present with a text), and the remaining keys, which no cell modelled here
  reads, as one opaque text.
\<close>

record image_record =
  im_file :: string \<comment> \<open>the key \<open>file\<close>\<close>
  failure :: "string option option"
  detections :: string

record info =
  format_version :: string
  info_other :: string

text \<open>
  \<open>detection_categories\<close> is a JSON object: its items, in file order, with the keys
  unique. Two such dictionaries are equal in Python when they hold the same items.
\<close>

record results =
  info :: info
  detection_categories :: "(string \<times> string) list"
  images :: "image_record list"

definition dict_eq :: "(string \<times> string) list \<Rightarrow> (string \<times> string) list \<Rightarrow> bool" where
  "dict_eq a b = (set a = set b)"

text \<open>
  An entry of \<open>task_info\<close>. The keys the later cells add are options: \<open>None\<close> is a
  key that is not there yet.
\<close>

record task =
  task_id :: nat
  input_file :: string
  output_file :: "string option"
  command :: "string option"
  command_file :: "string option"
  resume_command :: "string option"
  resume_command_file :: "string option"
  n_failures :: "nat option"
  task_results :: "results option"

text \<open>
  The files the cells read and write, by path: chunk manifests (a JSON list of paths),
  detector outputs, generated scripts (text, marked executable), and anything else.
\<close>

datatype file_content =
    ImageList "string list"
  | DetectorOutput results
  | Script string
  | OtherContent

type_synonym disk = "string \<rightharpoonup> file_content"

record combined_results =
  cr_info :: "info option"
  cr_detection_categories :: "(string \<times> string) list option"
  cr_images :: "image_record list"

section \<open>Enumerate files: the recovery branch\<close>

text \<open>
  \<open>re.compile('chunk\d+.json').match(fn)\<close>: the name starts with \<open>chunk\<close>, then one
  or more digits, then any one character but a newline (the dot is not escaped), then
  \<open>json\<close>; anything may follow. The digits are matched with backtracking, so each
  number \<open>k\<close> of leading digits is tried. Characters are bytes here: the digits are
  \<open>0\<close> to \<open>9\<close>.
\<close>

definition is_digit :: "char \<Rightarrow> bool" where
  "is_digit c = (c \<in> set ''0123456789'')"

definition chunk_pattern_match :: "string \<Rightarrow> bool" where
  "chunk_pattern_match fn =
     (startswith fn ''chunk'' \<and>
      (let rest = drop 5 fn; nd = length (takeWhile is_digit rest)
       in list_ex
            (\<lambda>k. case drop k rest of
                    [] \<Rightarrow> False
                  | c # cs \<Rightarrow> c \<noteq> CHR 0x0A \<and> startswith cs ''json'')
            [1..<Suc nd]))"

text \<open>
  The loop over the chunk files found: each is opened from the job folder and loaded; a
  content that is not a list fails the assert; a list is appended. \<open>listing\<close> is what
  \<open>os.listdir(filename_base)\<close> returns, in the order it returns it.
\<close>

fun load_chunks :: "string \<Rightarrow> disk \<Rightarrow> string list \<Rightarrow> string list \<Rightarrow> error + string list" where
  "load_chunks base d [] all_images = Inr all_images"
| "load_chunks base d (fn # fns) all_images =
     (case d (path_join base fn) of
        None \<Rightarrow> Inl (LoadError (path_join base fn))
      | Some (ImageList chunk) \<Rightarrow> load_chunks base d fns (all_images @ chunk)
      | Some _ \<Rightarrow> Inl AssertionError)"

definition enumerate_files ::
  "config \<Rightarrow> string list \<Rightarrow> disk \<Rightarrow> string list \<Rightarrow> error + string list" where
  "enumerate_files c listing d found =
     (let chunk_files = filter chunk_pattern_match listing
      in if \<not> force_enumeration c \<and> length chunk_files > 0
         then (case load_chunks (filename_base c) d chunk_files [] of
                 Inl e \<Rightarrow> Inl e
               | Inr all_images \<Rightarrow> Inr (sort all_images))
         else Inr (enumerate_images found))"

section \<open>Write file lists\<close>

definition chunk_name :: "nat \<Rightarrow> string" where
  \<comment> \<open>\<open>'chunk{}.json'.format(str(i_chunk).zfill(3))\<close>\<close>
  "chunk_name i_chunk = ''chunk'' @ zfill 3 (str_nat i_chunk) @ ''.json''"

fun write_file_lists :: "string \<Rightarrow> nat \<Rightarrow> string list list \<Rightarrow> disk \<Rightarrow> task list \<times> disk" where
  "write_file_lists base i_chunk [] d = ([], d)"
| "write_file_lists base i_chunk (chunk_list # rest) d =
     (let chunk_fn = path_join base (chunk_name i_chunk);
          (tasks, d') = write_file_lists base (Suc i_chunk) rest (d(chunk_fn \<mapsto> ImageList chunk_list))
      in (\<lparr> task_id = i_chunk, input_file = chunk_fn, output_file = None, command = None,
             command_file = None, resume_command = None, resume_command_file = None,
             n_failures = None, task_results = None \<rparr> # tasks, d'))"

section \<open>Generate commands\<close>

function replace_all :: "string \<Rightarrow> string \<Rightarrow> string \<Rightarrow> string" where
  \<comment> \<open>\<open>s.replace(old, new)\<close>: every occurrence, left to right, without overlap\<close>
  "replace_all old new [] = (if old = [] then new else [])"
| "replace_all old new (c # cs) =
     (if old = [] then new @ c # replace_all old new cs
      else if startswith (c # cs) old
        then new @ replace_all old new (drop (length old) (c # cs))
      else c # replace_all old new cs)"
  by pat_completeness auto
termination
  by (relation "measure (\<lambda>(old, new, s). length s)") auto

definition dq :: string where
  \<comment> \<open>the double quote character\<close>
  "dq = [CHR 0x22]"

definition nl :: string where
  \<comment> \<open>the newline character\<close>
  "nl = [CHR 0x0A]"

definition script_header :: string where
  "script_header = ''#!/bin/bash'' @ nl @ nl @ ''set -e'' @ nl"

definition script_extension :: string where
  "script_extension = ''.sh''"

definition script_text :: "string \<Rightarrow> string" where
  \<comment> \<open>what is written to a command file: the header and a newline, the command and a newline\<close>
  "script_text cmd =
     (if length script_header > 0 then script_header @ nl else []) @ cmd @ nl"

definition gpu_number_of :: "config \<Rightarrow> nat \<Rightarrow> int" where
  "gpu_number_of c i_task =
     (if n_gpus c > 1 then int i_task mod n_gpus c else default_gpu_number c)"

definition image_size_string :: "config \<Rightarrow> string" where
  "image_size_string c =
     (case image_size c of None \<Rightarrow> [] | Some sz \<Rightarrow> ''--image_size '' @ str_int sz)"

definition checkpoint_frequency_string :: "config \<Rightarrow> string" where
  "checkpoint_frequency_string c =
     (case checkpoint_frequency c of
        None \<Rightarrow> []
      | Some freq \<Rightarrow> if freq > 0 then ''--checkpoint_frequency '' @ str_int freq else [])"

definition checkpoint_path_string :: "config \<Rightarrow> string \<Rightarrow> string" where
  "checkpoint_path_string c checkpoint_filename =
     (case checkpoint_frequency c of
        None \<Rightarrow> []
      | Some freq \<Rightarrow>
          if freq > 0 then ''--checkpoint_path '' @ dq @ checkpoint_filename @ dq else [])"

definition yolo_cmd :: "config \<Rightarrow> nat \<Rightarrow> string \<Rightarrow> string \<Rightarrow> int \<Rightarrow> string" where
  \<comment> \<open>the branch \<open>if use_yolo_inference_scripts\<close>. The source assigns the debug flag's
      text to \<open>write_yolo_debug_output\<close>, not to \<open>write_yolo_debug_output_string\<close>, so
      that text stays empty.\<close>
  "yolo_cmd c i_task chunk_file output_fn gpu_number =
     (let augment_string =
            (if augment c then ''--augment_enabled 1'' else ''--augment_enabled 0'');
          batch_string = ''--batch_size '' @ str_int (yolo_batch_size c);
          symlink_folder =
            path_join (path_join (filename_base c) ''symlinks'')
              (''symlinks_'' @ zfill 3 (str_nat i_task));
          yolo_results_folder =
            path_join (path_join (filename_base c) ''yolo_results'')
              (''yolo_results_'' @ zfill 3 (str_nat i_task));
          symlink_folder_string = ''--symlink_folder '' @ dq @ symlink_folder @ dq;
          yolo_results_folder_string =
            ''--yolo_results_folder '' @ dq @ yolo_results_folder @ dq;
          remove_symlink_folder_string =
            (if \<not> remove_yolo_symlink_folder c then ''--no_remove_symlink_folder'' else []);
          write_yolo_debug_output_string = [];
          remove_yolo_results_string =
            (if \<not> remove_yolo_intermediate_results c
             then ''--no_remove_yolo_results_folder'' else []);
          confidence_threshold_string =
            (case json_threshold c of
               Some t \<Rightarrow> ''--conf_thres '' @ t
             | None \<Rightarrow> ''--conf_thres '' @ default_output_confidence_threshold c);
          device_string = ''--device '' @ str_int gpu_number;
          overwrite_handling_string = ''--overwrite_handling '' @ overwrite_handling c
      in ''python run_inference_with_yolov5_val.py '' @ dq @ model_file c @ dq @ '' ''
           @ dq @ chunk_file @ dq @ '' '' @ dq @ output_fn @ dq @ '' ''
         @ image_size_string c @ '' '' @ augment_string @ '' ''
         @ symlink_folder_string @ '' '' @ yolo_results_folder_string @ '' ''
           @ remove_yolo_results_string @ '' ''
         @ remove_symlink_folder_string @ '' '' @ confidence_threshold_string @ '' ''
           @ device_string @ '' ''
         @ overwrite_handling_string @ '' '' @ batch_string @ '' ''
           @ write_yolo_debug_output_string
         @ (case yolo_working_dir c of
              None \<Rightarrow> [] | Some w \<Rightarrow> '' --yolo_working_folder '' @ dq @ w @ dq)
         @ (case yolo_dataset_file c of
              None \<Rightarrow> [] | Some f \<Rightarrow> '' --yolo_dataset_file '' @ dq @ f @ dq)
         @ (case yolo_model_type c of None \<Rightarrow> [] | Some t \<Rightarrow> '' --model_type '' @ t)
         @ (if \<not> use_symlinks_for_yolo_inference c then '' --no_use_symlinks'' else [])
         @ nl)"

definition tiled_cmd :: "config \<Rightarrow> nat \<Rightarrow> string \<Rightarrow> string \<Rightarrow> int \<Rightarrow> string" where
  \<comment> \<open>the branch \<open>elif use_tiled_inference\<close>\<close>
  "tiled_cmd c i_task chunk_file output_fn gpu_number =
     (let tiling_folder =
            path_join (path_join (filename_base c) ''tile_cache'')
              (''tile_cache_'' @ zfill 3 (str_nat i_task));
          cuda_string = ''CUDA_VISIBLE_DEVICES='' @ str_int gpu_number @ '' ''
      in cuda_string @ '' python run_tiled_inference.py '' @ dq @ model_file c @ dq @ '' ''
           @ dq @ input_path c @ dq @ '' '' @ dq @ tiling_folder @ dq @ '' ''
           @ dq @ output_fn @ dq
         @ '' --image_list '' @ dq @ chunk_file @ dq
         @ '' --overwrite_handling '' @ overwrite_handling c
         @ (if \<not> remove_tiles c then '' --no_remove_tiles'' else [])
         @ (case tile_size c of
              None \<Rightarrow> []
            | Some (x, y) \<Rightarrow>
                if x > 0 \<or> y > 0
                then '' --tile_size_x '' @ str_int x @ '' --tile_size_y '' @ str_int y
                else [])
         @ (case tile_overlap c of None \<Rightarrow> [] | Some ov \<Rightarrow> '' --tile_overlap '' @ ov))"

definition detector_cmd :: "config \<Rightarrow> string \<Rightarrow> string \<Rightarrow> string \<Rightarrow> int \<Rightarrow> string" where
  \<comment> \<open>the \<open>else\<close> branch: \<open>run_detector_batch.py\<close>\<close>
  "detector_cmd c chunk_file output_fn checkpoint_filename gpu_number =
     (let cuda_string = ''CUDA_VISIBLE_DEVICES='' @ str_int gpu_number @ '' '';
          use_image_queue_string = (if use_image_queue c then ''--use_image_queue'' else []);
          ncores_string = (if ncores c > 1 then ''--ncores '' @ str_int (ncores c) else []);
          quiet_string = (if quiet_mode c then ''--quiet'' else []);
          confidence_threshold_string =
            (case json_threshold c of None \<Rightarrow> [] | Some t \<Rightarrow> ''--threshold '' @ t);
          overwrite_handling_string = ''--overwrite_handling '' @ overwrite_handling c
      in cuda_string @ '' python run_detector_batch.py '' @ dq @ model_file c @ dq @ '' ''
           @ dq @ chunk_file @ dq @ '' '' @ dq @ output_fn @ dq @ '' ''
           @ checkpoint_frequency_string c @ '' ''
           @ checkpoint_path_string c checkpoint_filename @ '' ''
           @ use_image_queue_string @ '' '' @ ncores_string @ '' '' @ quiet_string @ '' ''
           @ image_size_string c @ '' '' @ confidence_threshold_string @ '' ''
           @ overwrite_handling_string
         @ (if include_image_size c then '' --include_image_size'' else [])
         @ (if include_image_timestamp c then '' --include_image_timestamp'' else [])
         @ (if include_exif_data c then '' --include_exif_data'' else [])
         @ (case detector_options c of
              None \<Rightarrow> [] | Some opts \<Rightarrow> '' --detector_options '' @ dq @ opts @ dq))"

definition task_cmd :: "config \<Rightarrow> nat \<Rightarrow> string \<Rightarrow> string" where
  \<comment> \<open>\<open>cmd\<close> for the task at index \<open>i_task\<close> with manifest \<open>chunk_file\<close>\<close>
  "task_cmd c i_task chunk_file =
     (let checkpoint_filename = replace_all ''.json'' ''_checkpoint.json'' chunk_file;
          output_fn = replace_all ''.json'' ''_results.json'' chunk_file;
          gpu_number = gpu_number_of c i_task
      in if use_yolo_inference_scripts c then yolo_cmd c i_task chunk_file output_fn gpu_number
         else if use_tiled_inference c then tiled_cmd c i_task chunk_file output_fn gpu_number
         else detector_cmd c chunk_file output_fn checkpoint_filename gpu_number)"

definition cmd_file_of :: "config \<Rightarrow> string \<Rightarrow> nat \<Rightarrow> string" where
  \<comment> \<open>\<open>run_chunk_NNN_gpu_NN.sh\<close> or \<open>resume_chunk_NNN_gpu_NN.sh\<close> in the job folder\<close>
  "cmd_file_of c prefix i_task =
     path_join (filename_base c)
       (prefix @ ''_chunk_'' @ zfill 3 (str_nat i_task) @ ''_gpu_''
          @ zfill 2 (str_int (gpu_number_of c i_task)) @ script_extension)"

definition generate_task :: "config \<Rightarrow> nat \<Rightarrow> task \<Rightarrow> disk \<Rightarrow> task \<times> disk" where
  \<comment> \<open>one iteration of the loop over \<open>task_info\<close>\<close>
  "generate_task c i_task t d =
     (let chunk_file = input_file t;
          checkpoint_filename = replace_all ''.json'' ''_checkpoint.json'' chunk_file;
          output_fn = replace_all ''.json'' ''_results.json'' chunk_file;
          cmd = task_cmd c i_task chunk_file;
          cmd_file = cmd_file_of c ''run'' i_task;
          d1 = d(cmd_file \<mapsto> Script (script_text cmd));
          t1 = t\<lparr> output_file := Some output_fn, command := Some cmd,
                  command_file := Some cmd_file \<rparr>
      in if checkpoint_frequency c \<noteq> None
         then (let resume_string =
                     '' --resume_from_checkpoint '' @ dq @ checkpoint_filename @ dq;
                   resume_cmd = cmd @ resume_string;
                   resume_cmd_file = cmd_file_of c ''resume'' i_task
               in (t1\<lparr> resume_command := Some resume_cmd,
                        resume_command_file := Some resume_cmd_file \<rparr>,
                   d1(resume_cmd_file \<mapsto> Script (script_text resume_cmd))))
         else (t1, d1))"

fun add_script :: "int \<Rightarrow> string \<Rightarrow> (int \<times> string list) list \<Rightarrow> (int \<times> string list) list" where
  \<comment> \<open>\<open>gpu_to_scripts[gpu_number].append(cmd_file)\<close> on a \<open>defaultdict(list)\<close>\<close>
  "add_script g s [] = [(g, [s])]"
| "add_script g s ((g', ss) # rest) =
     (if g = g' then (g', ss @ [s]) # rest else (g', ss) # add_script g s rest)"

fun generate_tasks ::
  "config \<Rightarrow> nat \<Rightarrow> task list \<Rightarrow> disk \<Rightarrow> (int \<times> string list) list
     \<Rightarrow> task list \<times> disk \<times> (int \<times> string list) list" where
  "generate_tasks c i_task [] d gpu_to_scripts = ([], d, gpu_to_scripts)"
| "generate_tasks c i_task (t # ts) d gpu_to_scripts =
     (let (t', d') = generate_task c i_task t d;
          g' = add_script (gpu_number_of c i_task) (cmd_file_of c ''run'' i_task) gpu_to_scripts;
          (ts', d'', g'') = generate_tasks c (Suc i_task) ts d' g'
      in (t' # ts', d'', g''))"

definition gpu_script_text :: "int \<Rightarrow> string list \<Rightarrow> string" where
  "gpu_script_text gpu_number scripts =
     (if length script_header > 0 then script_header @ nl else [])
     @ concat (map (\<lambda>s. s @ nl) scripts)
     @ ''echo '' @ dq @ ''Finished all commands for GPU '' @ str_int gpu_number @ dq"

fun write_gpu_scripts :: "config \<Rightarrow> (int \<times> string list) list \<Rightarrow> disk \<Rightarrow> disk" where
  "write_gpu_scripts c [] d = d"
| "write_gpu_scripts c ((gpu_number, scripts) # rest) d =
     write_gpu_scripts c rest
       (d(path_join (filename_base c)
            (''run_all_for_gpu_'' @ zfill 2 (str_int gpu_number) @ script_extension)
          \<mapsto> Script (gpu_script_text gpu_number scripts)))"

definition generate_commands :: "config \<Rightarrow> task list \<Rightarrow> disk \<Rightarrow> task list \<times> disk" where
  "generate_commands c task_info d =
     (let (tasks, d', gpu_to_scripts) = generate_tasks c 0 task_info d []
      in (tasks, write_gpu_scripts c gpu_to_scripts d'))"

section \<open>From validation to the scripts\<close>

text \<open>
  The cells from the validation cell to the command cell, in the order of the file.
  \<open>split\<close> stands for \<open>split_list_into_n_chunks\<close>, \<open>listing\<close> for the entries of
  the job folder, \<open>found\<close> for what the file enumeration returns. A failed assert stops
  the run at that cell: nothing after it is done.
\<close>

definition plan_and_generate ::
  "config \<Rightarrow> (string list \<Rightarrow> int \<Rightarrow> string list list) \<Rightarrow> string list \<Rightarrow> string list \<Rightarrow> disk
     \<Rightarrow> error + (string list \<times> task list \<times> disk)" where
  "plan_and_generate c split listing found d =
     (case validate_config c of
        Inl e \<Rightarrow> Inl e
      | Inr _ \<Rightarrow>
         (case enumerate_files c listing d found of
            Inl e \<Rightarrow> Inl e
          | Inr all_images \<Rightarrow>
             (let folder_chunks = split all_images (n_jobs c);
                  (task_info, d1) = write_file_lists (filename_base c) 0 folder_chunks d;
                  (tasks, d2) = generate_commands c task_info d1
              in Inr (all_images, tasks, d2))))"

section \<open>Load results, look for failed or missing images in each task\<close>

text \<open>
  The first loop: every task's output file is looked up; the names of all that are
  missing are collected and printed, and then the cell raises.
\<close>

fun missing_output_files :: "disk \<Rightarrow> task list \<Rightarrow> error + string list" where
  "missing_output_files d [] = Inr []"
| "missing_output_files d (t # ts) =
     (case output_file t of
        None \<Rightarrow> Inl (KeyError ''output_file'')
      | Some output_fn \<Rightarrow>
          (case missing_output_files d ts of
             Inl e \<Rightarrow> Inl e
           | Inr ms \<Rightarrow> Inr (if d output_fn = None then output_fn # ms else ms)))"

definition check_output_files :: "disk \<Rightarrow> task list \<Rightarrow> error + unit" where
  "check_output_files d task_info =
     (case missing_output_files d task_info of
        Inl e \<Rightarrow> Inl e
      | Inr ms \<Rightarrow> if length ms > 0 then Inl (MissingOutputFiles ms) else Inr ())"

text \<open>
  The loop over the records of one output file. A relative path is joined to the input
  root; the path must start with the root and must be in the task's manifest; the record
  is entered in \<open>filename_to_results\<close>; a record with the key \<open>failure\<close> must not
  hold null there, and is counted. The records are changed in place, so the records
  with their paths made absolute are part of the result.
\<close>

definition absolute_file :: "string \<Rightarrow> string \<Rightarrow> string" where
  "absolute_file root f =
     (if \<not> isabs f then replace_backslashes (path_join root f) else f)"

fun check_images ::
  "string \<Rightarrow> string list \<Rightarrow> image_record list \<Rightarrow> (string \<rightharpoonup> image_record) \<Rightarrow> nat
     \<Rightarrow> error + (image_record list \<times> (string \<rightharpoonup> image_record) \<times> nat)" where
  "check_images root task_images [] filename_to_results n_task_failures =
     Inr ([], filename_to_results, n_task_failures)"
| "check_images root task_images (im0 # ims) filename_to_results n_task_failures =
     (let im = im0\<lparr> im_file := absolute_file root (im_file im0) \<rparr>
      in if \<not> startswith (im_file im) root then Inl AssertionError
         else if im_file im \<notin> set task_images then Inl AssertionError
         else if failure im = Some None then Inl AssertionError
         else (case check_images root task_images ims
                      (filename_to_results(im_file im \<mapsto> im))
                      (if failure im \<noteq> None then n_task_failures + 1 else n_task_failures) of
                 Inl e \<Rightarrow> Inl e
               | Inr (ims', f2r, n) \<Rightarrow> Inr (im # ims', f2r, n)))"

definition check_task :: "string \<Rightarrow> disk \<Rightarrow> nat \<Rightarrow> task \<Rightarrow> error + (task \<times> nat)" where
  \<comment> \<open>one iteration of the loop over the tasks: the task with its new keys, and
      \<open>n_task_failures\<close>\<close>
  "check_task root d i_task t =
     (case output_file t of
        None \<Rightarrow> Inl (KeyError ''output_file'')
      | Some output_fn \<Rightarrow>
         (case d (input_file t) of
            Some (ImageList task_images) \<Rightarrow>
              (case d output_fn of
                 Some (DetectorOutput res) \<Rightarrow>
                   (case check_images root task_images (images res) Map.empty 0 of
                      Inl e \<Rightarrow> Inl e
                    | Inr (ims, filename_to_results, n) \<Rightarrow>
                        (case find (\<lambda>fn. filename_to_results fn = None) task_images of
                           Some fn \<Rightarrow> Inl (FileNotInResults fn i_task)
                         | None \<Rightarrow>
                             Inr (t\<lparr> n_failures := Some n,
                                    task_results := Some (res\<lparr> images := ims \<rparr>) \<rparr>,
                                  n)))
               | _ \<Rightarrow> Inl (LoadError output_fn))
          | _ \<Rightarrow> Inl (LoadError (input_file t))))"

fun check_tasks ::
  "string \<Rightarrow> disk \<Rightarrow> nat \<Rightarrow> task list \<Rightarrow> nat \<Rightarrow> error + (task list \<times> nat)" where
  "check_tasks root d i_task [] n_total_failures = Inr ([], n_total_failures)"
| "check_tasks root d i_task (t # ts) n_total_failures =
     (case check_task root d i_task t of
        Inl e \<Rightarrow> Inl e
      | Inr (t', n_task_failures) \<Rightarrow>
          (case check_tasks root d (Suc i_task) ts (n_total_failures + n_task_failures) of
             Inl e \<Rightarrow> Inl e
           | Inr (ts', n) \<Rightarrow> Inr (t' # ts', n)))"

definition load_results :: "config \<Rightarrow> disk \<Rightarrow> task list \<Rightarrow> error + (task list \<times> nat)" where
  \<comment> \<open>the cell: the output files, the tasks, then the tolerance\<close>
  "load_results c d task_info =
     (case check_output_files d task_info of
        Inl e \<Rightarrow> Inl e
      | Inr _ \<Rightarrow>
          (case check_tasks (input_path c) d 0 task_info 0 of
             Inl e \<Rightarrow> Inl e
           | Inr (tasks, n_total_failures) \<Rightarrow>
               if int n_total_failures < max_tolerable_failed_images c
               then Inr (tasks, n_total_failures)
               else Inl (TooManyFailures n_total_failures (max_tolerable_failed_images c))))"

section \<open>Merge results files and make filenames relative\<close>

fun add_processed :: "image_record list \<Rightarrow> string set \<Rightarrow> error + string set" where
  \<comment> \<open>the loop that asserts a path was not seen and adds it to \<open>images_processed\<close>\<close>
  "add_processed [] images_processed = Inr images_processed"
| "add_processed (im # ims) images_processed =
     (if im_file im \<in> images_processed then Inl AssertionError
      else add_processed ims (insert (im_file im) images_processed))"

fun merge_tasks ::
  "nat \<Rightarrow> task list \<Rightarrow> combined_results \<Rightarrow> string set \<Rightarrow> error + combined_results" where
  "merge_tasks i_task [] cr images_processed = Inr cr"
| "merge_tasks i_task (t # ts) cr images_processed =
     (case task_results t of
        None \<Rightarrow> Inl (KeyError ''results'')
      | Some res \<Rightarrow>
          (case (if i_task = 0
                 then Inr (cr\<lparr> cr_info := Some (info res),
                              cr_detection_categories := Some (detection_categories res) \<rparr>)
                 else (case (cr_info cr, cr_detection_categories cr) of
                         (Some i, Some cats) \<Rightarrow>
                           if format_version (info res) \<noteq> format_version i
                             then Inl AssertionError
                           else if \<not> dict_eq (detection_categories res) cats
                             then Inl AssertionError
                           else Inr cr
                       | _ \<Rightarrow> Inl (KeyError ''info''))) of
             Inl e \<Rightarrow> Inl e
           | Inr cr1 \<Rightarrow>
               (case add_processed (images res) images_processed of
                  Inl e \<Rightarrow> Inl e
                | Inr images_processed' \<Rightarrow>
                    merge_tasks (Suc i_task) ts
                      (cr1\<lparr> cr_images := cr_images cr1 @ images res \<rparr>)
                      images_processed')))"

definition merge_results :: "string list \<Rightarrow> task list \<Rightarrow> error + combined_results" where
  \<comment> \<open>the merge loop, the count check and the uniqueness check\<close>
  "merge_results all_images task_info =
     (case merge_tasks 0 task_info
             \<lparr> cr_info = None, cr_detection_categories = None, cr_images = [] \<rparr> {} of
        Inl e \<Rightarrow> Inl e
      | Inr cr \<Rightarrow>
          if length (cr_images cr) \<noteq> length all_images
            then Inl (CountMismatch (length all_images) (length (cr_images cr)))
          else if length (cr_images cr) \<noteq> card (set (map im_file (cr_images cr)))
            then Inl AssertionError
          else Inr cr)"

fun relative_images :: "string \<Rightarrow> image_record list \<Rightarrow> error + image_record list" where
  \<comment> \<open>the loop that converts every path of the combined results\<close>
  "relative_images root [] = Inr []"
| "relative_images root (im # ims) =
     (case make_relative root (im_file im) of
        Inl e \<Rightarrow> Inl e
      | Inr rel \<Rightarrow>
          (case relative_images root ims of
             Inl e \<Rightarrow> Inl e
           | Inr ims' \<Rightarrow> Inr (im\<lparr> im_file := rel \<rparr> # ims')))"

definition merge_and_make_relative ::
  "config \<Rightarrow> string list \<Rightarrow> task list \<Rightarrow> error + combined_results" where
  "merge_and_make_relative c all_images task_info =
     (case merge_results all_images task_info of
        Inl e \<Rightarrow> Inl e
      | Inr cr \<Rightarrow>
          (case relative_images (input_path c) (cr_images cr) of
             Inl e \<Rightarrow> Inl e
           | Inr ims \<Rightarrow> Inr (cr\<lparr> cr_images := ims \<rparr>)))"

definition reconcile ::
  "config \<Rightarrow> disk \<Rightarrow> string list \<Rightarrow> task list \<Rightarrow> error + combined_results" where
  \<comment> \<open>the two cells in sequence; the value is what is written to the combined file\<close>
  "reconcile c d all_images task_info =
     (case load_results c d task_info of
        Inl e \<Rightarrow> Inl e
      | Inr (tasks, n_total_failures) \<Rightarrow> merge_and_make_relative c all_images tasks)"

section \<open>Divide images into chunks\<close>

text \<open>
  Modelled from the spec: \<open>split_list_into_n_chunks\<close> is imported from
  \<open>megadetector.utils.ct_utils\<close>, which is not among the sources. The spec asks for
  \<open>n\<close> ordered chunks (\<open>min(n, m)\<close> when the list has \<open>m < n\<close> elements) whose sizes
  differ by at most one, each a contiguous slice, so that the chunks in index order give
  back the list; seven paths in two chunks give sizes four and three. So the first
  \<open>m mod c\<close> chunks of the \<open>c\<close> chunks get one element more.
\<close>

definition split_list_into_n_chunks :: "'a list \<Rightarrow> nat \<Rightarrow> 'a list list" where
  "split_list_into_n_chunks L n =
     (let c = min n (length L); k = length L div c; r = length L mod c
      in map (\<lambda>i. take (k + (if i < r then 1 else 0)) (drop (i * k + min i r) L)) [0..<c])"

section \<open>What a task has on disk\<close>

text \<open>
  Two readings of the disk used to state the properties of the reconciliation: the
  manifest of a task, and the paths of the records of its output file as the check loop
  sees them (made absolute). A file that is missing or of another shape gives the empty
  list.
\<close>

definition manifest_of :: "disk \<Rightarrow> task \<Rightarrow> string list" where
  "manifest_of d t = (case d (input_file t) of Some (ImageList l) \<Rightarrow> l | _ \<Rightarrow> [])"

definition output_records :: "disk \<Rightarrow> task \<Rightarrow> image_record list" where
  "output_records d t =
     (case output_file t of
        None \<Rightarrow> []
      | Some output_fn \<Rightarrow> (case d output_fn of Some (DetectorOutput r) \<Rightarrow> images r | _ \<Rightarrow> []))"

definition result_files :: "string \<Rightarrow> disk \<Rightarrow> task \<Rightarrow> string list" where
  "result_files root d t = map (\<lambda>im. absolute_file root (im_file im)) (output_records d t)"

definition merged_files :: "task \<Rightarrow> string list" where
  \<comment> \<open>the paths of the records a checked task carries under the key \<open>results\<close>\<close>
  "merged_files t =
     (case task_results t of None \<Rightarrow> [] | Some r \<Rightarrow> map im_file (images r))"

definition same_metadata :: "results \<Rightarrow> results \<Rightarrow> bool" where
  \<comment> \<open>what the merge loop asserts of a later task's results against the first task's\<close>
  "same_metadata r r0 =
     (format_version (info r) = format_version (info r0) \<and>
      dict_eq (detection_categories r) (detection_categories r0))"

text \<open>Reading a number back from its decimal digits, to tell chunk file names apart.\<close>

definition digit_value :: "char \<Rightarrow> nat" where
  "digit_value ch = of_char ch - 48"

definition nat_of_digits :: "string \<Rightarrow> nat" where
  "nat_of_digits s = foldl (\<lambda>a ch. 10 * a + digit_value ch) 0 s"

definition list_at :: "disk \<Rightarrow> string \<Rightarrow> string list" where
  \<comment> \<open>the list a file holds; empty when the file is missing or holds no list\<close>
  "list_at d p = (case d p of Some (ImageList l) \<Rightarrow> l | _ \<Rightarrow> [])"

section \<open>A small job, for concrete runs\<close>

text \<open>
  Three images under \<open>/d\<close>, the job folder \<open>/j\<close>, two tasks: the first holds
  \<open>a.jpg\<close> and \<open>b.jpg\<close>, the second \<open>c.jpg\<close>. The records of the two output
  files are parameters.
\<close>

definition ex_config :: config where
  "ex_config = default_config\<lparr> input_path := ''/d'', filename_base := ''/j'' \<rparr>"

definition ex_task :: "nat \<Rightarrow> string \<Rightarrow> task" where
  "ex_task i name =
     \<lparr> task_id = i, input_file = ''/j/'' @ name @ ''.json'',
       output_file = Some (''/j/'' @ name @ ''_results.json''),
       command = None, command_file = None, resume_command = None,
       resume_command_file = None, n_failures = None, task_results = None \<rparr>"

definition ex_tasks :: "task list" where
  "ex_tasks = [ex_task 0 ''chunk000'', ex_task 1 ''chunk001'']"

definition ex_image :: "string \<Rightarrow> string option option \<Rightarrow> image_record" where
  "ex_image f fl = \<lparr> im_file = f, failure = fl, detections = ''[]'' \<rparr>"

definition ex_output :: "image_record list \<Rightarrow> results" where
  "ex_output ims =
     \<lparr> info = \<lparr> format_version = ''1.4'', info_other = [] \<rparr>,
       detection_categories = [(''1'', ''animal'')],
       images = ims \<rparr>"

definition ex_manifests :: disk where
  "ex_manifests =
     [''/j/chunk000.json'' \<mapsto> ImageList [''/d/a.jpg'', ''/d/b.jpg''],
      ''/j/chunk001.json'' \<mapsto> ImageList [''/d/c.jpg'']]"

definition ex_disk :: "image_record list \<Rightarrow> image_record list \<Rightarrow> disk" where
  "ex_disk ims0 ims1 =
     ex_manifests(''/j/chunk000_results.json'' \<mapsto> DetectorOutput (ex_output ims0),
                  ''/j/chunk001_results.json'' \<mapsto> DetectorOutput (ex_output ims1))"

section \<open>Lemmas on the string operations\<close>

lemma startswith_append: "startswith (p @ r) p"
  by (simp add: startswith_def)

lemma startswith_iff: "startswith s p \<longleftrightarrow> (\<exists>r. s = p @ r)"
proof
  assume "startswith s p"
  then have "s = p @ drop (length p) s"
    unfolding startswith_def by (metis append_take_drop_id)
  then show "\<exists>r. s = p @ r" ..
next
  assume "\<exists>r. s = p @ r"
  then show "startswith s p" by (auto simp: startswith_def)
qed

lemma replace_first_prefix: "old \<noteq> [] \<Longrightarrow> replace_first old new (old @ r) = new @ r"
  by (cases old) (simp_all add: startswith_def)

section \<open>Enumeration: what is dropped, what is kept, and the order\<close>

text \<open>
  C10. In the enumeration branch every path starting with \<open>$RECYCLE\<close> or
  \<open>System Volume Information\<close> is removed from the enumerated list, every other
  enumerated path is kept (with its multiplicity), and the resulting list is sorted.
\<close>

theorem enumerate_images_drops_and_sorts:
  "set (enumerate_images found) =
     {fn \<in> set found.
        \<not> startswith fn ''$RECYCLE'' \<and> \<not> startswith fn ''System Volume Information''}
   \<and> mset (enumerate_images found) =
     filter_mset
       (\<lambda>fn. \<not> startswith fn ''$RECYCLE'' \<and> \<not> startswith fn ''System Volume Information'')
       (mset found)
   \<and> sorted (enumerate_images found)"
  by (auto simp: enumerate_images_def recycle_or_system_def sorted_wrt_filter)

lemma enumerate_images_example:
  "enumerate_images
     [''/d/b.jpg'', ''$RECYCLE.BIN/x.jpg'', ''/d/a.jpg'', ''System Volume Information/y.jpg'']
   = [''/d/a.jpg'', ''/d/b.jpg'']"
  by code_simp

section \<open>Relative paths: stripping the root is undone by putting it back\<close>

text \<open>
  C8. For a path without backslashes under the input root, the conversion to a relative
  path strips the root prefix once (the root itself when the root ends in \<open>:\<close>, the
  root and a slash otherwise), and putting the stripped prefix back in front of the
  result gives the original path, for both forms of the root.
\<close>

theorem make_relative_reversible:
  assumes "CHR 0x5C \<notin> set img"
  shows "(endswith root '':'' \<and> startswith img root \<longrightarrow>
            (\<exists>rel. make_relative root img = Inr rel \<and> root @ rel = img))
       \<and> (\<not> endswith root '':'' \<and> startswith img (root @ ''/'') \<longrightarrow>
            (\<exists>rel. make_relative root img = Inr rel \<and>
                   root @ ''/'' @ rel = img))"
proof (intro conjI impI)
  assume a: "endswith root '':'' \<and> startswith img root"
  then obtain r where r: "img = root @ r" by (auto simp: startswith_iff)
  from a have ne: "root \<noteq> []" by (auto simp: endswith_def)
  have "make_relative root img = Inr r"
    using a assms ne by (simp add: make_relative_def r replace_first_prefix)
  with r show "\<exists>rel. make_relative root img = Inr rel \<and> root @ rel = img"
    by simp
next
  assume a: "\<not> endswith root '':'' \<and> startswith img (root @ ''/'')"
  then obtain r where r: "img = (root @ ''/'') @ r" by (auto simp: startswith_iff)
  have sw: "startswith img root" unfolding r by (simp add: startswith_def)
  have "replace_first (root @ ''/'') '''' ((root @ ''/'') @ r) = '''' @ r"
    by (rule replace_first_prefix) simp
  then have "make_relative root img = Inr r"
    using a assms sw by (simp add: make_relative_def r)
  with r show "\<exists>rel. make_relative root img = Inr rel \<and>
      root @ ''/'' @ rel = img"
    by simp
qed

theorem make_relative_reversible_witness:
  "(\<exists>rel. make_relative ''/data/org'' ''/data/org/cam1/data/org/a.jpg'' = Inr rel \<and>
       ''/data/org'' @ ''/'' @ rel = ''/data/org/cam1/data/org/a.jpg'')
   \<and> (\<exists>rel. make_relative ''g:'' ''g:cam1/a.jpg'' = Inr rel \<and>
       ''g:'' @ rel = ''g:cam1/a.jpg'')"
  using make_relative_reversible [where img = "''/data/org/cam1/data/org/a.jpg''"
      and root = "''/data/org''"]
    make_relative_reversible [where img = "''g:cam1/a.jpg''" and root = "''g:''"]
  by (simp add: startswith_def endswith_def)

section \<open>Which mode combinations the validation cell rejects\<close>

lemma validate_config_Inr_iff:
  "validate_config c = Inr () \<longleftrightarrow>
     \<not> (use_image_queue c \<and> checkpoint_frequency c \<noteq> None) \<and>
     \<not> (augment c \<and> checkpoint_frequency c \<noteq> None) \<and>
     \<not> (augment c \<and> \<not> use_yolo_inference_scripts c) \<and>
     \<not> (use_tiled_inference c \<and> augment c) \<and>
     \<not> (use_tiled_inference c \<and> use_yolo_inference_scripts c) \<and>
     \<not> (use_tiled_inference c \<and> checkpoint_frequency c \<noteq> None)"
  by (auto simp: validate_config_def)

lemma validate_config_error: "validate_config c = Inl e \<Longrightarrow> \<exists>msg. e = ConfigError msg"
  by (auto simp: validate_config_def split: if_splits)

lemma plan_and_generate_rejected:
  "validate_config c = Inl e \<Longrightarrow> plan_and_generate c split listing found d = Inl e"
  by (simp add: plan_and_generate_def)

text \<open>
  C5, as stated, fails: with the image queue and tiled inference both on (and no
  checkpoint frequency) the validation cell raises nothing. The same holds for the image
  queue with augmentation, when the YOLO scripts are on.
\<close>

theorem two_modes_accepted:
  "use_image_queue (default_config\<lparr>use_image_queue := True, use_tiled_inference := True,
       checkpoint_frequency := None\<rparr>)
   \<and> use_tiled_inference (default_config\<lparr>use_image_queue := True,
       use_tiled_inference := True, checkpoint_frequency := None\<rparr>)
   \<and> validate_config (default_config\<lparr>use_image_queue := True, use_tiled_inference := True,
       checkpoint_frequency := None\<rparr>) = Inr ()
   \<and> use_image_queue (default_config\<lparr>use_image_queue := True, augment := True,
       use_yolo_inference_scripts := True, checkpoint_frequency := None\<rparr>)
   \<and> augment (default_config\<lparr>use_image_queue := True, augment := True,
       use_yolo_inference_scripts := True, checkpoint_frequency := None\<rparr>)
   \<and> validate_config (default_config\<lparr>use_image_queue := True, augment := True,
       use_yolo_inference_scripts := True, checkpoint_frequency := None\<rparr>) = Inr ()"
  by (simp add: validate_config_def default_config_def)

lemma two_modes_scripts_written:
  "snd (snd (projr (plan_and_generate
      (default_config\<lparr>use_image_queue := True, use_tiled_inference := True,
         checkpoint_frequency := None, filename_base := ''/j''\<rparr>)
      (\<lambda>L n. [L]) [] [''/drive/organization/a.jpg''] Map.empty)))
     ''/j/run_chunk_000_gpu_00.sh'' \<noteq> None"
  by code_simp

text \<open>
  C5, amended. A configuration with a checkpoint frequency (any value but \<open>None\<close>)
  together with the image queue, augmentation or tiled inference, and a configuration
  with augmentation together with tiled inference, is rejected by the validation cell,
  and then no later cell runs: no script is written. The image queue together with
  tiled inference, and the image queue together with augmentation, is accepted when
  nothing else is wrong.
\<close>

theorem validate_config_pairs:
  "((checkpoint_frequency c \<noteq> None \<and>
       (use_image_queue c \<or> augment c \<or> use_tiled_inference c))
      \<or> (augment c \<and> use_tiled_inference c)
     \<longrightarrow> (\<exists>msg. validate_config c = Inl (ConfigError msg) \<and>
           (\<forall>split listing found d.
              plan_and_generate c split listing found d = Inl (ConfigError msg))))
   \<and> (use_image_queue c \<and> use_tiled_inference c \<and> checkpoint_frequency c = None \<and>
        \<not> augment c \<and> \<not> use_yolo_inference_scripts c
     \<longrightarrow> validate_config c = Inr ())
   \<and> (use_image_queue c \<and> augment c \<and> checkpoint_frequency c = None \<and>
        use_yolo_inference_scripts c \<and> \<not> use_tiled_inference c
     \<longrightarrow> validate_config c = Inr ())"
proof (intro conjI impI)
  assume a: "(checkpoint_frequency c \<noteq> None \<and>
      (use_image_queue c \<or> augment c \<or> use_tiled_inference c))
      \<or> (augment c \<and> use_tiled_inference c)"
  then have "validate_config c \<noteq> Inr ()"
    by (auto simp: validate_config_Inr_iff)
  then obtain e where e: "validate_config c = Inl e"
    by (cases "validate_config c") auto
  then obtain msg where "e = ConfigError msg"
    using validate_config_error by blast
  with e show "\<exists>msg. validate_config c = Inl (ConfigError msg) \<and>
           (\<forall>split listing found d.
              plan_and_generate c split listing found d = Inl (ConfigError msg))"
    by (auto simp: plan_and_generate_rejected)
qed (auto simp: validate_config_Inr_iff)

theorem validate_config_pairs_witness:
  "(\<exists>msg. validate_config (default_config\<lparr>use_image_queue := True\<rparr>) = Inl (ConfigError msg) \<and>
      (\<forall>split listing found d.
         plan_and_generate (default_config\<lparr>use_image_queue := True\<rparr>) split listing found d
           = Inl (ConfigError msg)))
   \<and> (\<exists>msg. validate_config (default_config\<lparr>augment := True, use_tiled_inference := True,
          checkpoint_frequency := None\<rparr>) = Inl (ConfigError msg) \<and>
      (\<forall>split listing found d.
         plan_and_generate (default_config\<lparr>augment := True, use_tiled_inference := True,
          checkpoint_frequency := None\<rparr>) split listing found d = Inl (ConfigError msg)))
   \<and> validate_config (default_config\<lparr>use_image_queue := True, use_tiled_inference := True,
       checkpoint_frequency := None\<rparr>) = Inr ()
   \<and> validate_config (default_config\<lparr>use_image_queue := True, augment := True,
       use_yolo_inference_scripts := True, checkpoint_frequency := None\<rparr>) = Inr ()"
  using validate_config_pairs [of "default_config\<lparr>use_image_queue := True\<rparr>"]
    validate_config_pairs [of "default_config\<lparr>augment := True, use_tiled_inference := True,
          checkpoint_frequency := None\<rparr>"]
    validate_config_pairs [of "default_config\<lparr>use_image_queue := True,
       use_tiled_inference := True, checkpoint_frequency := None\<rparr>"]
    validate_config_pairs [of "default_config\<lparr>use_image_queue := True, augment := True,
       use_yolo_inference_scripts := True, checkpoint_frequency := None\<rparr>"]
  by (simp add: default_config_def)

section \<open>The resume script\<close>

lemma generate_task_resume:
  "resume_command (fst (generate_task c i_task t d)) =
     (if checkpoint_frequency c \<noteq> None
      then Some (task_cmd c i_task (input_file t) @ '' --resume_from_checkpoint '' @ dq
                   @ replace_all ''.json'' ''_checkpoint.json'' (input_file t) @ dq)
      else resume_command t)"
  by (simp add: generate_task_def Let_def)

lemma generate_task_resume_file:
  "resume_command_file (fst (generate_task c i_task t d)) =
     (if checkpoint_frequency c \<noteq> None then Some (cmd_file_of c ''resume'' i_task)
      else resume_command_file t)"
  by (simp add: generate_task_def Let_def)

text \<open>
  C6 at a checkpoint frequency of 0. The detector command carries no checkpoint flag
  (the test there is \<open>checkpoint_frequency is not None and checkpoint_frequency > 0\<close>),
  so the run does not checkpoint; the resume command and the resume script are written
  all the same (the test there is \<open>checkpoint_frequency is not None\<close>).
\<close>

theorem resume_script_without_checkpointing:
  "checkpoint_frequency_string
      (default_config\<lparr>checkpoint_frequency := Some 0, filename_base := ''/j''\<rparr>) = []
   \<and> task_cmd (default_config\<lparr>checkpoint_frequency := Some 0, filename_base := ''/j''\<rparr>) 0
        ''/j/chunk000.json''
      = ''CUDA_VISIBLE_DEVICES=0  python run_detector_batch.py '' @ dq @ ''MDV5A'' @ dq
        @ '' '' @ dq @ ''/j/chunk000.json'' @ dq @ '' '' @ dq @ ''/j/chunk000_results.json''
        @ dq @ ''     --quiet   --overwrite_handling skip''
   \<and> resume_command (fst (generate_task
          (default_config\<lparr>checkpoint_frequency := Some 0, filename_base := ''/j''\<rparr>) 0
          \<lparr> task_id = 0, input_file = ''/j/chunk000.json'', output_file = None, command = None,
             command_file = None, resume_command = None, resume_command_file = None,
             n_failures = None, task_results = None \<rparr> Map.empty))
      = Some (task_cmd
                (default_config\<lparr>checkpoint_frequency := Some 0, filename_base := ''/j''\<rparr>) 0
                ''/j/chunk000.json''
              @ '' --resume_from_checkpoint '' @ dq @ ''/j/chunk000_checkpoint.json'' @ dq)
   \<and> snd (generate_task
          (default_config\<lparr>checkpoint_frequency := Some 0, filename_base := ''/j''\<rparr>) 0
          \<lparr> task_id = 0, input_file = ''/j/chunk000.json'', output_file = None, command = None,
             command_file = None, resume_command = None, resume_command_file = None,
             n_failures = None, task_results = None \<rparr> Map.empty)
        ''/j/resume_chunk_000_gpu_00.sh'' \<noteq> None"
  by code_simp

section \<open>What the per-task checks establish\<close>

lemma check_images_error:
  "check_images root ti ims f2r n = Inl e \<Longrightarrow> e = AssertionError"
  by (induction ims arbitrary: f2r n)
     (auto simp: Let_def split: if_splits sum.splits)

lemma check_images_Cons_Inr:
  assumes "check_images root ti (im0 # ims) f2r n = Inr (ims', f2r', n')"
  obtains ims1 where
    "startswith (absolute_file root (im_file im0)) root"
    "absolute_file root (im_file im0) \<in> set ti"
    "failure im0 \<noteq> Some None"
    "check_images root ti ims
       (f2r(absolute_file root (im_file im0) \<mapsto> im0\<lparr> im_file := absolute_file root (im_file im0) \<rparr>))
       (if failure im0 \<noteq> None then n + 1 else n) = Inr (ims1, f2r', n')"
    "ims' = im0\<lparr> im_file := absolute_file root (im_file im0) \<rparr> # ims1"
  using assms by (auto simp: Let_def split: if_splits sum.splits)

lemma check_images_count:
  "check_images root ti ims f2r n = Inr (ims', f2r', n') \<Longrightarrow>
     n' = n + length (filter (\<lambda>im. failure im \<noteq> None) ims)"
proof (induction ims arbitrary: f2r n ims')
  case Nil
  then show ?case by simp
next
  case (Cons im0 ims)
  from Cons.prems show ?case
    by (rule check_images_Cons_Inr) (auto dest!: Cons.IH)
qed

lemma check_images_no_null:
  "check_images root ti ims f2r n = Inr (ims', f2r', n') \<Longrightarrow> im \<in> set ims \<Longrightarrow>
     failure im \<noteq> Some None"
proof (induction ims arbitrary: f2r n ims')
  case Nil
  then show ?case by simp
next
  case (Cons im0 ims)
  from Cons.prems(1) show ?case
    by (rule check_images_Cons_Inr) (use Cons.prems(2) Cons.IH in auto)
qed

lemma check_images_records:
  "check_images root ti ims f2r n = Inr (ims', f2r', n') \<Longrightarrow>
     ims' = map (\<lambda>im. im\<lparr> im_file := absolute_file root (im_file im) \<rparr>) ims"
proof (induction ims arbitrary: f2r n ims')
  case Nil
  then show ?case by simp
next
  case (Cons im0 ims)
  from Cons.prems show ?case
    by (rule check_images_Cons_Inr) (auto dest!: Cons.IH)
qed

lemma check_images_files:
  "check_images root ti ims f2r n = Inr (ims', f2r', n') \<Longrightarrow>
     map im_file ims' = map (\<lambda>im. absolute_file root (im_file im)) ims"
  by (drule check_images_records) simp

lemma check_images_dom:
  "check_images root ti ims f2r n = Inr (ims', f2r', n') \<Longrightarrow>
     dom f2r' = dom f2r \<union> set (map im_file ims')"
proof (induction ims arbitrary: f2r n ims')
  case Nil
  then show ?case by simp
next
  case (Cons im0 ims)
  from Cons.prems show ?case
  proof (rule check_images_Cons_Inr)
    fix ims1
    assume rec: "check_images root ti ims
       (f2r(absolute_file root (im_file im0) \<mapsto> im0\<lparr> im_file := absolute_file root (im_file im0) \<rparr>))
       (if failure im0 \<noteq> None then n + 1 else n) = Inr (ims1, f2r', n')"
      and ims': "ims' = im0\<lparr> im_file := absolute_file root (im_file im0) \<rparr> # ims1"
    from Cons.IH[OF rec] ims' show ?thesis by auto
  qed
qed

lemma check_images_in_manifest:
  "check_images root ti ims f2r n = Inr (ims', f2r', n') \<Longrightarrow>
     set (map im_file ims') \<subseteq> set ti \<and> (\<forall>f\<in>set (map im_file ims'). startswith f root)"
proof (induction ims arbitrary: f2r n ims')
  case Nil
  then show ?case by simp
next
  case (Cons im0 ims)
  from Cons.prems show ?case
  proof (rule check_images_Cons_Inr)
    fix ims1
    assume rec: "check_images root ti ims
       (f2r(absolute_file root (im_file im0) \<mapsto> im0\<lparr> im_file := absolute_file root (im_file im0) \<rparr>))
       (if failure im0 \<noteq> None then n + 1 else n) = Inr (ims1, f2r', n')"
      and ims': "ims' = im0\<lparr> im_file := absolute_file root (im_file im0) \<rparr> # ims1"
      and ok: "startswith (absolute_file root (im_file im0)) root"
        "absolute_file root (im_file im0) \<in> set ti"
    from Cons.IH[OF rec] ims' ok show ?thesis by auto
  qed
qed

lemma check_images_null_fails:
  assumes "im \<in> set ims" "failure im = Some None"
  shows "check_images root ti ims f2r n = Inl AssertionError"
proof (cases "check_images root ti ims f2r n")
  case (Inl e)
  then show ?thesis using check_images_error by blast
next
  case (Inr r)
  then obtain ims' f2r' n' where "check_images root ti ims f2r n = Inr (ims', f2r', n')"
    by (cases r) auto
  from check_images_no_null[OF this assms(1)] assms(2) show ?thesis by simp
qed

lemma find_None_iff_subset:
  "find (\<lambda>fn. f2r fn = None) xs = None \<longleftrightarrow> set xs \<subseteq> dom f2r"
  by (auto simp: find_None_iff)

lemma check_task_Inr:
  assumes "check_task root d i_task t = Inr (t', n)"
  obtains output_fn task_images res where
    "output_file t = Some output_fn"
    "d (input_file t) = Some (ImageList task_images)"
    "d output_fn = Some (DetectorOutput res)"
    "t' = t\<lparr> n_failures := Some n,
            task_results := Some (res\<lparr> images :=
              map (\<lambda>im. im\<lparr> im_file := absolute_file root (im_file im) \<rparr>) (images res) \<rparr>) \<rparr>"
    "n = length (filter (\<lambda>im. failure im \<noteq> None) (images res))"
    "\<forall>im\<in>set (images res). failure im \<noteq> Some None"
    "set task_images \<subseteq> set (map (\<lambda>im. absolute_file root (im_file im)) (images res))"
    "set (map (\<lambda>im. absolute_file root (im_file im)) (images res)) \<subseteq> set task_images"
    "\<forall>im\<in>set (images res). startswith (absolute_file root (im_file im)) root"
proof -
  from assms obtain output_fn where o: "output_file t = Some output_fn"
    by (auto simp: check_task_def split: option.splits)
  from assms o obtain task_images where m: "d (input_file t) = Some (ImageList task_images)"
    by (auto simp: check_task_def split: option.splits file_content.splits)
  from assms o m obtain res where r: "d output_fn = Some (DetectorOutput res)"
    by (auto simp: check_task_def split: option.splits file_content.splits)
  from assms o m r obtain ims f2r where
    ci: "check_images root task_images (images res) Map.empty 0 = Inr (ims, f2r, n)"
    and fnd: "find (\<lambda>fn. f2r fn = None) task_images = None"
    and t': "t' = t\<lparr> n_failures := Some n, task_results := Some (res\<lparr> images := ims \<rparr>) \<rparr>"
    by (auto simp: check_task_def split: sum.splits option.splits)
  note recs = check_images_records[OF ci]
  have files: "map im_file ims = map (\<lambda>im. absolute_file root (im_file im)) (images res)"
    using check_images_files[OF ci] .
  have dom: "dom f2r = set (map im_file ims)"
    using check_images_dom[OF ci] by simp
  have sub: "set task_images \<subseteq> set (map im_file ims)"
    using fnd dom by (simp add: find_None_iff_subset)
  have inm: "set (map im_file ims) \<subseteq> set task_images"
    and sw: "\<forall>f\<in>set (map im_file ims). startswith f root"
    using check_images_in_manifest[OF ci] by auto
  show ?thesis
  proof (rule that[OF o m r])
    show "t' = t\<lparr> n_failures := Some n,
            task_results := Some (res\<lparr> images :=
              map (\<lambda>im. im\<lparr> im_file := absolute_file root (im_file im) \<rparr>) (images res) \<rparr>) \<rparr>"
      using t' recs by simp
    show "n = length (filter (\<lambda>im. failure im \<noteq> None) (images res))"
      using check_images_count[OF ci] by simp
    show "\<forall>im\<in>set (images res). failure im \<noteq> Some None"
      using check_images_no_null[OF ci] by blast
    show "set task_images \<subseteq> set (map (\<lambda>im. absolute_file root (im_file im)) (images res))"
      using sub files by simp
    show "set (map (\<lambda>im. absolute_file root (im_file im)) (images res)) \<subseteq> set task_images"
      using inm files by simp
    show "\<forall>im\<in>set (images res). startswith (absolute_file root (im_file im)) root"
      using sw files by (metis (no_types, lifting) image_eqI list.set_map)
  qed
qed

lemma check_tasks_length:
  "check_tasks root d i ts n0 = Inr (ts', tot) \<Longrightarrow> length ts' = length ts"
  by (induction ts arbitrary: i n0 ts') (auto split: sum.splits)

lemma check_tasks_nth:
  "check_tasks root d i ts n0 = Inr (ts', tot) \<Longrightarrow> k < length ts \<Longrightarrow>
     \<exists>nk. check_task root d (i + k) (ts ! k) = Inr (ts' ! k, nk)"
proof (induction ts arbitrary: i n0 ts' k)
  case Nil
  then show ?case by simp
next
  case (Cons t ts)
  from Cons.prems(1) obtain t' n ts1 where
    ct: "check_task root d i t = Inr (t', n)"
    and rec: "check_tasks root d (Suc i) ts (n0 + n) = Inr (ts1, tot)"
    and ts': "ts' = t' # ts1"
    by (auto split: sum.splits)
  show ?case
  proof (cases k)
    case 0
    with ct ts' show ?thesis by simp
  next
    case (Suc k')
    with Cons.prems(2) have "k' < length ts" by simp
    from Cons.IH[OF rec this] Suc ts' show ?thesis by simp
  qed
qed

lemma check_tasks_total:
  "check_tasks root d i ts n0 = Inr (ts', tot) \<Longrightarrow>
     tot = n0 + (\<Sum>t\<leftarrow>ts. length (filter (\<lambda>im. failure im \<noteq> None) (output_records d t)))"
proof (induction ts arbitrary: i n0 ts')
  case Nil
  then show ?case by simp
next
  case (Cons t ts)
  from Cons.prems(1) obtain t' n ts1 where
    ct: "check_task root d i t = Inr (t', n)"
    and rec: "check_tasks root d (Suc i) ts (n0 + n) = Inr (ts1, tot)"
    by (auto split: sum.splits)
  from ct have "n = length (filter (\<lambda>im. failure im \<noteq> None) (output_records d t))"
    by (rule check_task_Inr) (simp add: output_records_def)
  with Cons.IH[OF rec] show ?case by simp
qed

lemma check_task_null_fails:
  assumes "output_file t = Some output_fn"
    and "d (input_file t) = Some (ImageList task_images)"
    and "d output_fn = Some (DetectorOutput res)"
    and "im \<in> set (images res)" "failure im = Some None"
  shows "check_task root d i_task t = Inl AssertionError"
  using assms check_images_null_fails[OF assms(4,5), of root task_images Map.empty 0]
  by (simp add: check_task_def)

lemma check_tasks_Inl_nth:
  "k < length ts \<Longrightarrow> check_task root d (i + k) (ts ! k) = Inl e \<Longrightarrow>
     \<exists>e'. check_tasks root d i ts n0 = Inl e'"
proof -
  assume k: "k < length ts" and e: "check_task root d (i + k) (ts ! k) = Inl e"
  show ?thesis
  proof (cases "check_tasks root d i ts n0")
    case (Inl e')
    then show ?thesis by blast
  next
    case (Inr r)
    then obtain ts' tot where "check_tasks root d i ts n0 = Inr (ts', tot)"
      by (cases r) auto
    from check_tasks_nth[OF this k] e show ?thesis by simp
  qed
qed

lemma load_results_Inl_of_check_tasks:
  "check_tasks (input_path c) d 0 ts 0 = Inl e \<Longrightarrow> \<exists>e'. load_results c d ts = Inl e'"
  by (auto simp: load_results_def split: sum.splits)

lemma reconcile_Inl_of_load:
  "load_results c d ts = Inl e \<Longrightarrow> reconcile c d all_images ts = Inl e"
  by (simp add: reconcile_def)

lemma check_tasks_no_null:
  assumes "check_tasks root d i ts n0 = Inr (ts', tot)" "t \<in> set ts"
    "im \<in> set (output_records d t)"
  shows "failure im \<noteq> Some None"
proof -
  from assms(2) obtain k where k: "k < length ts" "ts ! k = t"
    by (auto simp: in_set_conv_nth)
  from check_tasks_nth[OF assms(1) k(1)] k(2) obtain nk where
    "check_task root d (i + k) t = Inr (ts' ! k, nk)" by auto
  then show ?thesis
    using assms(3) by (elim check_task_Inr) (auto simp: output_records_def)
qed

lemma non_null_failure_iff:
  "failure im \<noteq> Some None \<Longrightarrow> (failure im \<noteq> None) = (\<exists>msg. failure im = Some (Some msg))"
  by (cases "failure im") auto

lemma check_tasks_total_non_null:
  assumes "check_tasks root d i ts n0 = Inr (ts', tot)"
  shows "tot = n0 + (\<Sum>t\<leftarrow>ts. length (filter (\<lambda>im. \<exists>msg. failure im = Some (Some msg))
                                  (output_records d t)))"
proof -
  have "\<And>t. t \<in> set ts \<Longrightarrow>
      filter (\<lambda>im. failure im \<noteq> None) (output_records d t)
      = filter (\<lambda>im. \<exists>msg. failure im = Some (Some msg)) (output_records d t)"
    by (rule filter_cong[OF refl]) (use check_tasks_no_null[OF assms] non_null_failure_iff in blast)
  then have "map (\<lambda>t. length (filter (\<lambda>im. failure im \<noteq> None) (output_records d t))) ts
     = map (\<lambda>t. length (filter (\<lambda>im. \<exists>msg. failure im = Some (Some msg))
                                  (output_records d t))) ts"
    by (intro map_cong[OF refl]) metis
  then show ?thesis
    by (simp only: check_tasks_total[OF assms])
qed

section \<open>What the merge loop establishes\<close>

lemma add_processed_error: "add_processed ims S = Inl e \<Longrightarrow> e = AssertionError"
  by (induction ims arbitrary: S) (auto split: if_splits)

lemma add_processed_Inr_iff:
  "add_processed ims S = Inr S' \<longleftrightarrow>
     distinct (map im_file ims) \<and> set (map im_file ims) \<inter> S = {} \<and>
     S' = S \<union> set (map im_file ims)"
  by (induction ims arbitrary: S) auto

lemma merged_files_Some: "task_results t = Some r \<Longrightarrow> merged_files t = map im_file (images r)"
  by (simp add: merged_files_def)

lemma merge_tasks_Cons_Inr:
  assumes "merge_tasks i (t # ts) cr S = Inr cr'"
  obtains res cr2 where
    "task_results t = Some res"
    "distinct (merged_files t)" "set (merged_files t) \<inter> S = {}"
    "cr_images cr2 = cr_images cr @ images res"
    "merge_tasks (Suc i) ts cr2 (S \<union> set (merged_files t)) = Inr cr'"
proof -
  from assms obtain res where r: "task_results t = Some res"
    by (auto split: option.splits)
  define cr1 where "cr1 =
    (if i = 0 then cr\<lparr> cr_info := Some (info res),
                        cr_detection_categories := Some (detection_categories res) \<rparr>
     else cr)"
  define cr2 where "cr2 = cr1\<lparr> cr_images := cr_images cr1 @ images res \<rparr>"
  have im: "cr_images cr2 = cr_images cr @ images res"
    by (simp add: cr1_def cr2_def)
  have "\<exists>S1. add_processed (images res) S = Inr S1 \<and>
          merge_tasks (Suc i) ts cr2 S1 = Inr cr'"
    using assms r unfolding cr1_def cr2_def
    by (cases "i = 0") (auto split: sum.splits if_splits option.splits)
  then obtain S1 where ap: "add_processed (images res) S = Inr S1"
    and rec: "merge_tasks (Suc i) ts cr2 S1 = Inr cr'"
    by blast
  from ap have d: "distinct (merged_files t)" "set (merged_files t) \<inter> S = {}"
    and S1: "S1 = S \<union> set (merged_files t)"
    by (auto simp: add_processed_Inr_iff merged_files_Some[OF r])
  from that[OF r d im] rec S1 show ?thesis by simp
qed

lemma merge_tasks_Inr:
  "merge_tasks i ts cr S = Inr cr' \<Longrightarrow>
     map im_file (cr_images cr') = map im_file (cr_images cr) @ concat (map merged_files ts)
     \<and> distinct (concat (map merged_files ts))
     \<and> set (concat (map merged_files ts)) \<inter> S = {}
     \<and> (\<forall>t\<in>set ts. task_results t \<noteq> None)"
proof (induction ts arbitrary: i cr S)
  case Nil
  then show ?case by simp
next
  case (Cons t ts)
  from Cons.prems show ?case
  proof (rule merge_tasks_Cons_Inr)
    fix res cr2
    assume r: "task_results t = Some res"
      and d: "distinct (merged_files t)" "set (merged_files t) \<inter> S = {}"
      and im: "cr_images cr2 = cr_images cr @ images res"
      and rec: "merge_tasks (Suc i) ts cr2 (S \<union> set (merged_files t)) = Inr cr'"
    from Cons.IH[OF rec] r d im show ?thesis
      by (auto simp: merged_files_Some[OF r])
  qed
qed

lemma merge_tasks_length:
  "merge_tasks i ts cr S = Inr cr' \<Longrightarrow>
     length (cr_images cr') = length (cr_images cr) + length (concat (map merged_files ts))"
  by (drule merge_tasks_Inr) (metis length_append length_map)

lemma merge_tasks_error:
  "merge_tasks i ts cr S = Inl e \<Longrightarrow> e = AssertionError \<or> (\<exists>k. e = KeyError k)"
proof (induction ts arbitrary: i cr S)
  case Nil
  then show ?case by simp
next
  case (Cons t ts)
  then show ?case
    by (auto split: option.splits sum.splits if_splits dest: add_processed_error)
qed

lemma merge_tasks_later_success:
  assumes "i \<noteq> 0" "cr_info cr = Some i0" "cr_detection_categories cr = Some cats"
    and "\<forall>t\<in>set ts. \<exists>r. task_results t = Some r \<and>
           format_version (info r) = format_version i0 \<and>
           dict_eq (detection_categories r) cats"
    and "distinct (concat (map merged_files ts))"
    and "set (concat (map merged_files ts)) \<inter> S = {}"
  shows "\<exists>cr'. merge_tasks i ts cr S = Inr cr'"
  using assms
proof (induction ts arbitrary: i cr S)
  case Nil
  then show ?case by simp
next
  case (Cons t ts)
  from Cons.prems(4) obtain r where r: "task_results t = Some r"
    and fv: "format_version (info r) = format_version i0"
    and cats: "dict_eq (detection_categories r) cats"
    by auto
  have mf: "merged_files t = map im_file (images r)"
    using r by (rule merged_files_Some)
  from Cons.prems(5,6) have ap: "add_processed (images r) S = Inr (S \<union> set (merged_files t))"
    by (auto simp: add_processed_Inr_iff mf)
  let ?cr = "cr\<lparr> cr_images := cr_images cr @ images r \<rparr>"
  have "\<exists>cr'. merge_tasks (Suc i) ts ?cr (S \<union> set (merged_files t)) = Inr cr'"
  proof (rule Cons.IH)
    show "Suc i \<noteq> 0" by simp
    show "cr_info ?cr = Some i0" using Cons.prems(2) by simp
    show "cr_detection_categories ?cr = Some cats" using Cons.prems(3) by simp
    show "\<forall>t\<in>set ts. \<exists>r. task_results t = Some r \<and>
           format_version (info r) = format_version i0 \<and>
           dict_eq (detection_categories r) cats"
      using Cons.prems(4) by simp
    show "distinct (concat (map merged_files ts))" using Cons.prems(5) by simp
    show "set (concat (map merged_files ts)) \<inter> (S \<union> set (merged_files t)) = {}"
      using Cons.prems(5,6) by auto
  qed
  then show ?case
    using r fv cats ap Cons.prems(1,2,3) by simp
qed

lemma merge_tasks_first_success:
  assumes "\<forall>t\<in>set ts. \<exists>r. task_results t = Some r"
    and "\<forall>t\<in>set ts. \<forall>r r0. task_results t = Some r \<and> task_results (hd ts) = Some r0
            \<longrightarrow> same_metadata r r0"
    and "distinct (concat (map merged_files ts))"
    and "set (concat (map merged_files ts)) \<inter> S = {}"
  shows "\<exists>cr'. merge_tasks 0 ts cr S = Inr cr'"
proof (cases ts)
  case Nil
  then show ?thesis by simp
next
  case (Cons t rest)
  from assms(1) Cons obtain r0 where r0: "task_results t = Some r0" by auto
  have mf: "merged_files t = map im_file (images r0)"
    using r0 by (rule merged_files_Some)
  from assms(3,4) Cons have ap: "add_processed (images r0) S = Inr (S \<union> set (merged_files t))"
    by (auto simp: add_processed_Inr_iff mf)
  let ?cr = "cr\<lparr> cr_info := Some (info r0),
                  cr_detection_categories := Some (detection_categories r0),
                  cr_images := cr_images cr @ images r0 \<rparr>"
  have "\<exists>cr'. merge_tasks (Suc 0) rest ?cr (S \<union> set (merged_files t)) = Inr cr'"
  proof (rule merge_tasks_later_success)
    show "Suc 0 \<noteq> 0" by simp
    show "cr_info ?cr = Some (info r0)" by simp
    show "cr_detection_categories ?cr = Some (detection_categories r0)" by simp
    show "\<forall>t\<in>set rest. \<exists>r. task_results t = Some r \<and>
           format_version (info r) = format_version (info r0) \<and>
           dict_eq (detection_categories r) (detection_categories r0)"
    proof
      fix u assume u: "u \<in> set rest"
      with assms(1) Cons obtain r where r: "task_results u = Some r" by auto
      with assms(2) Cons u r0 have "same_metadata r r0" by auto
      with r show "\<exists>r. task_results u = Some r \<and>
           format_version (info r) = format_version (info r0) \<and>
           dict_eq (detection_categories r) (detection_categories r0)"
        by (auto simp: same_metadata_def)
    qed
    show "distinct (concat (map merged_files rest))" using assms(3) Cons by simp
    show "set (concat (map merged_files rest)) \<inter> (S \<union> set (merged_files t)) = {}"
      using assms(3,4) Cons by auto
  qed
  then show ?thesis
    using Cons r0 ap by simp
qed

lemma distinct_concat_nth_disjoint:
  "distinct (concat xss) \<Longrightarrow> i < j \<Longrightarrow> j < length xss \<Longrightarrow> set (xss ! i) \<inter> set (xss ! j) = {}"
proof (induction xss arbitrary: i j)
  case Nil
  then show ?case by simp
next
  case (Cons xs xss)
  obtain j' where j: "j = Suc j'" using Cons.prems(2) by (cases j) auto
  show ?case
  proof (cases i)
    case 0
    have "xss ! j' \<in> set xss" using Cons.prems(3) j by simp
    with Cons.prems(1) 0 j show ?thesis by auto
  next
    case (Suc i')
    with Cons.IH[of i' j'] Cons.prems j show ?thesis by simp
  qed
qed

lemma mset_concat_list_all2:
  "list_all2 (\<lambda>t m. mset (f t) = mset m) ts ms \<Longrightarrow>
     mset (concat (map f ts)) = mset (concat ms)"
  by (induction rule: list_all2_induct) auto

lemma merge_results_Inr:
  assumes "merge_results all_images tasks = Inr cr"
  shows "merge_tasks 0 tasks \<lparr> cr_info = None, cr_detection_categories = None, cr_images = [] \<rparr> {}
           = Inr cr"
    and "length (cr_images cr) = length all_images"
    and "map im_file (cr_images cr) = concat (map merged_files tasks)"
    and "distinct (concat (map merged_files tasks))"
proof -
  from assms show m: "merge_tasks 0 tasks
      \<lparr> cr_info = None, cr_detection_categories = None, cr_images = [] \<rparr> {} = Inr cr"
    and "length (cr_images cr) = length all_images"
    by (auto simp: merge_results_def split: sum.splits if_splits)
  from merge_tasks_Inr[OF m] show "map im_file (cr_images cr) = concat (map merged_files tasks)"
    and "distinct (concat (map merged_files tasks))"
    by simp_all
qed

section \<open>From the per-task checks to the merge\<close>

lemma check_task_Inr_files:
  assumes "check_task root d i t = Inr (t', n)"
  shows "merged_files t' = result_files root d t"
    and "set (manifest_of d t) \<subseteq> set (result_files root d t)"
    and "set (result_files root d t) \<subseteq> set (manifest_of d t)"
    and "task_results t' \<noteq> None"
    and "\<forall>f\<in>set (result_files root d t). startswith f root"
proof -
  from assms obtain output_fn task_images res where
    o: "output_file t = Some output_fn"
    and m: "d (input_file t) = Some (ImageList task_images)"
    and r: "d output_fn = Some (DetectorOutput res)"
    and t': "t' = t\<lparr> n_failures := Some n,
            task_results := Some (res\<lparr> images :=
              map (\<lambda>im. im\<lparr> im_file := absolute_file root (im_file im) \<rparr>) (images res) \<rparr>) \<rparr>"
    and sub: "set task_images \<subseteq> set (map (\<lambda>im. absolute_file root (im_file im)) (images res))"
    and inm: "set (map (\<lambda>im. absolute_file root (im_file im)) (images res)) \<subseteq> set task_images"
    and sw: "\<forall>im\<in>set (images res). startswith (absolute_file root (im_file im)) root"
    by (rule check_task_Inr)
  have rf: "result_files root d t = map (\<lambda>im. absolute_file root (im_file im)) (images res)"
    using o r by (simp add: result_files_def output_records_def)
  have mf: "manifest_of d t = task_images"
    using m by (simp add: manifest_of_def)
  show "merged_files t' = result_files root d t"
    unfolding rf t' by (simp add: merged_files_def comp_def)
  show "set (manifest_of d t) \<subseteq> set (result_files root d t)"
    unfolding rf mf by (rule sub)
  show "set (result_files root d t) \<subseteq> set (manifest_of d t)"
    unfolding rf mf by (rule inm)
  show "task_results t' \<noteq> None" unfolding t' by simp
  show "\<forall>f\<in>set (result_files root d t). startswith f root"
    unfolding rf using sw by simp
qed

lemma check_tasks_files:
  "check_tasks root d i ts n0 = Inr (ts', tot) \<Longrightarrow>
     map merged_files ts' = map (result_files root d) ts
     \<and> (\<forall>t\<in>set ts. set (manifest_of d t) \<subseteq> set (result_files root d t))
     \<and> (\<forall>t\<in>set ts. \<forall>f\<in>set (result_files root d t). startswith f root)
     \<and> (\<forall>t'\<in>set ts'. task_results t' \<noteq> None)"
proof (induction ts arbitrary: i n0 ts')
  case Nil
  then show ?case by simp
next
  case (Cons t ts)
  from Cons.prems(1) obtain t' n ts1 where
    ct: "check_task root d i t = Inr (t', n)"
    and rec: "check_tasks root d (Suc i) ts (n0 + n) = Inr (ts1, tot)"
    and ts': "ts' = t' # ts1"
    by (auto split: sum.splits)
  from Cons.IH[OF rec] check_task_Inr_files[OF ct] ts' show ?case
    by simp
qed

lemma check_task_FileNotInResults:
  assumes "check_task root d i t = Inl (FileNotInResults fn j)"
  shows "j = i \<and>
     find (\<lambda>f. f \<notin> set (result_files root d t)) (manifest_of d t) = Some fn"
proof -
  from assms obtain output_fn where o: "output_file t = Some output_fn"
    by (auto simp: check_task_def split: option.splits)
  from assms o obtain task_images where m: "d (input_file t) = Some (ImageList task_images)"
    by (auto simp: check_task_def split: option.splits file_content.splits)
  from assms o m obtain res where r: "d output_fn = Some (DetectorOutput res)"
    by (auto simp: check_task_def split: option.splits file_content.splits)
  have "\<exists>ims f2r n. check_images root task_images (images res) Map.empty 0 = Inr (ims, f2r, n)"
  proof (cases "check_images root task_images (images res) Map.empty 0")
    case (Inl e)
    then have "e = AssertionError" by (rule check_images_error)
    with Inl assms o m r show ?thesis by (simp add: check_task_def)
  next
    case (Inr x)
    then show ?thesis by (cases x) auto
  qed
  then obtain ims f2r n where
    ci: "check_images root task_images (images res) Map.empty 0 = Inr (ims, f2r, n)"
    by blast
  with assms o m r have fnd: "find (\<lambda>fn. f2r fn = None) task_images = Some fn" and j: "j = i"
    by (auto simp: check_task_def split: option.splits)
  have "dom f2r = set (result_files root d t)"
    using check_images_dom[OF ci] check_images_files[OF ci] o r
    by (simp add: result_files_def output_records_def)
  then have "\<And>x. (f2r x = None) = (x \<notin> set (result_files root d t))"
    by (metis domIff)
  then have "(\<lambda>fn. f2r fn = None) = (\<lambda>f. f \<notin> set (result_files root d t))"
    by (simp add: fun_eq_iff)
  with fnd j m show ?thesis by (simp add: manifest_of_def)
qed

lemma check_tasks_FileNotInResults:
  "check_tasks root d i ts n0 = Inl (FileNotInResults fn j) \<Longrightarrow>
     \<exists>k<length ts. j = i + k \<and>
        check_task root d (i + k) (ts ! k) = Inl (FileNotInResults fn j)"
proof (induction ts arbitrary: i n0)
  case Nil
  then show ?case by simp
next
  case (Cons t ts)
  show ?case
  proof (cases "check_task root d i t")
    case (Inl e)
    with Cons.prems have "check_task root d i t = Inl (FileNotInResults fn j)" by simp
    from this check_task_FileNotInResults[OF this] show ?thesis
      by (intro exI[of _ 0]) simp
  next
    case (Inr x)
    then obtain t' n where ct: "check_task root d i t = Inr (t', n)" by (cases x) auto
    with Cons.prems have "check_tasks root d (Suc i) ts (n0 + n) = Inl (FileNotInResults fn j)"
      by (auto split: sum.splits)
    from Cons.IH[OF this] obtain k where "k < length ts" "j = Suc i + k"
      "check_task root d (Suc i + k) (ts ! k) = Inl (FileNotInResults fn j)" by blast
    then show ?thesis by (intro exI[of _ "Suc k"]) simp
  qed
qed

section \<open>Which error comes from which cell\<close>

lemma missing_output_files_eq:
  "\<forall>t\<in>set ts. output_file t \<noteq> None \<Longrightarrow>
     missing_output_files d ts
       = Inr (filter (\<lambda>f. d f = None) (map (\<lambda>t. the (output_file t)) ts))"
  by (induction ts) auto

lemma load_results_Inr:
  assumes "load_results c d ts = Inr (ts', n)"
  shows "check_output_files d ts = Inr ()"
    and "check_tasks (input_path c) d 0 ts 0 = Inr (ts', n)"
    and "int n < max_tolerable_failed_images c"
  using assms
  by (auto simp: load_results_def split: sum.splits if_splits)

lemma check_output_files_error:
  "check_output_files d ts = Inl e \<Longrightarrow> (\<exists>k. e = KeyError k) \<or> (\<exists>ms. e = MissingOutputFiles ms)"
proof -
  have "missing_output_files d ts = Inl e' \<Longrightarrow> \<exists>k. e' = KeyError k" for e'
    by (induction ts) (auto split: option.splits sum.splits)
  then show "check_output_files d ts = Inl e \<Longrightarrow> ?thesis"
    by (auto simp: check_output_files_def split: sum.splits if_splits)
qed

lemma load_results_FileNotInResults:
  assumes "load_results c d ts = Inl (FileNotInResults fn j)"
  shows "check_tasks (input_path c) d 0 ts 0 = Inl (FileNotInResults fn j)"
proof (cases "check_output_files d ts")
  case (Inl e)
  with assms have "e = FileNotInResults fn j" by (simp add: load_results_def)
  with check_output_files_error[OF Inl] show ?thesis by auto
next
  case (Inr u)
  with assms show ?thesis
    by (auto simp: load_results_def split: sum.splits if_splits)
qed

lemma make_relative_error: "make_relative root f = Inl e \<Longrightarrow> e = AssertionError"
  by (auto simp: make_relative_def split: if_splits)

lemma relative_images_error: "relative_images root ims = Inl e \<Longrightarrow> e = AssertionError"
  by (induction ims) (auto split: sum.splits dest: make_relative_error)

lemma merge_results_error:
  "merge_results all_images ts = Inl e \<Longrightarrow>
     e = AssertionError \<or> (\<exists>k. e = KeyError k) \<or>
     (\<exists>cr. merge_tasks 0 ts \<lparr> cr_info = None, cr_detection_categories = None, cr_images = [] \<rparr> {}
             = Inr cr \<and>
           e = CountMismatch (length all_images) (length (cr_images cr)) \<and>
           length (cr_images cr) \<noteq> length all_images)"
  by (auto simp: merge_results_def split: sum.splits if_splits dest: merge_tasks_error)

lemma merge_and_make_relative_error:
  "merge_and_make_relative c all_images ts = Inl e \<Longrightarrow>
     e = AssertionError \<or> (\<exists>k. e = KeyError k) \<or>
     (\<exists>cr. merge_tasks 0 ts \<lparr> cr_info = None, cr_detection_categories = None, cr_images = [] \<rparr> {}
             = Inr cr \<and>
           e = CountMismatch (length all_images) (length (cr_images cr)) \<and>
           length (cr_images cr) \<noteq> length all_images)"
  by (auto simp: merge_and_make_relative_def split: sum.splits
      dest: merge_results_error relative_images_error)

lemma merge_tasks_error_assertion:
  assumes "\<forall>t\<in>set ts. task_results t \<noteq> None"
    and "i \<noteq> 0 \<longrightarrow> cr_info cr \<noteq> None \<and> cr_detection_categories cr \<noteq> None"
    and "merge_tasks i ts cr S = Inl e"
  shows "e = AssertionError"
  using assms
proof (induction ts arbitrary: i cr S)
  case Nil
  then show ?case by simp
next
  case (Cons t ts)
  from Cons.prems(1) obtain res where r: "task_results t = Some res" by auto
  define cr1 where "cr1 =
    (if i = 0 then cr\<lparr> cr_info := Some (info res),
                        cr_detection_categories := Some (detection_categories res) \<rparr>
     else cr)"
  define cr2 where "cr2 = cr1\<lparr> cr_images := cr_images cr1 @ images res \<rparr>"
  have inv: "cr_info cr2 \<noteq> None \<and> cr_detection_categories cr2 \<noteq> None"
    using Cons.prems(2) by (auto simp: cr1_def cr2_def)
  have "e = AssertionError \<or>
        (\<exists>S1. merge_tasks (Suc i) ts cr2 S1 = Inl e)"
    using Cons.prems(2,3) r unfolding cr1_def cr2_def
    by (cases "i = 0")
       (auto split: sum.splits if_splits option.splits dest: add_processed_error)
  then show ?case
  proof
    assume "e = AssertionError" then show ?thesis .
  next
    assume "\<exists>S1. merge_tasks (Suc i) ts cr2 S1 = Inl e"
    then obtain S1 where "merge_tasks (Suc i) ts cr2 S1 = Inl e" ..
    from Cons.IH[OF _ _ this] Cons.prems(1) inv show ?thesis by simp
  qed
qed

lemma length_concat_result_files:
  "length (concat (map (result_files root d) ts)) = (\<Sum>t\<leftarrow>ts. length (output_records d t))"
  by (simp add: length_concat comp_def result_files_def)

lemma reconcile_Inr:
  fixes c :: config
  assumes "reconcile c d all_images ts = Inr cr"
  shows "\<forall>t\<in>set ts. set (manifest_of d t) \<subseteq> set (result_files (input_path c) d t)"
    and "distinct (concat (map (result_files (input_path c) d) ts))"
    and "(\<Sum>t\<leftarrow>ts. length (output_records d t)) = length all_images"
proof -
  from assms obtain ts' n where lr: "load_results c d ts = Inr (ts', n)"
    and mm: "merge_and_make_relative c all_images ts' = Inr cr"
    by (auto simp: reconcile_def split: sum.splits)
  from mm obtain cr0 where mr: "merge_results all_images ts' = Inr cr0"
    by (auto simp: merge_and_make_relative_def split: sum.splits)
  note ct = load_results_Inr(2)[OF lr]
  note files = check_tasks_files[OF ct]
  from files show "\<forall>t\<in>set ts. set (manifest_of d t) \<subseteq> set (result_files (input_path c) d t)"
    by blast
  from merge_results_Inr(4)[OF mr] files
  show "distinct (concat (map (result_files (input_path c) d) ts))" by simp
  from merge_results_Inr(2,3)[OF mr] files
  have "length (concat (map (result_files (input_path c) d) ts)) = length all_images"
    by (metis length_map)
  then show "(\<Sum>t\<leftarrow>ts. length (output_records d t)) = length all_images"
    by (simp add: length_concat_result_files)
qed

lemma reconcile_FileNotInResults:
  fixes c :: config
  assumes "reconcile c d all_images ts = Inl (FileNotInResults fn i)"
  shows "i < length ts \<and>
     find (\<lambda>f. f \<notin> set (result_files (input_path c) d (ts ! i))) (manifest_of d (ts ! i))
       = Some fn"
proof -
  have "load_results c d ts = Inl (FileNotInResults fn i)"
  proof (cases "load_results c d ts")
    case (Inl e)
    with assms show ?thesis by (simp add: reconcile_def)
  next
    case (Inr x)
    then obtain ts' n where "load_results c d ts = Inr (ts', n)" by (cases x) auto
    with assms have "merge_and_make_relative c all_images ts' = Inl (FileNotInResults fn i)"
      by (simp add: reconcile_def)
    from merge_and_make_relative_error[OF this] show ?thesis by auto
  qed
  from check_tasks_FileNotInResults[OF load_results_FileNotInResults[OF this]]
  obtain k where "k < length ts" "i = k"
    "check_task (input_path c) d k (ts ! k) = Inl (FileNotInResults fn i)"
    by auto
  with check_task_FileNotInResults[of "input_path c" d k "ts ! k" fn i] show ?thesis
    by simp
qed

lemma reconcile_missing_output_files:
  fixes c :: config
  assumes "\<forall>t\<in>set ts. output_file t \<noteq> None" "\<exists>t\<in>set ts. d (the (output_file t)) = None"
  shows "reconcile c d all_images ts
     = Inl (MissingOutputFiles (filter (\<lambda>f. d f = None) (map (\<lambda>t. the (output_file t)) ts)))"
proof -
  define ms where "ms = filter (\<lambda>f. d f = None) (map (\<lambda>t. the (output_file t)) ts)"
  from assms(2) have "ms \<noteq> []"
    by (auto simp: ms_def filter_empty_conv)
  moreover have "missing_output_files d ts = Inr ms"
    unfolding ms_def by (rule missing_output_files_eq[OF assms(1)])
  ultimately have "check_output_files d ts = Inl (MissingOutputFiles ms)"
    by (simp add: check_output_files_def)
  then show ?thesis
    unfolding ms_def[symmetric] by (simp add: reconcile_def load_results_def)
qed

lemma reconcile_duplicate:
  fixes c :: config
  assumes "load_results c d ts = Inr (ts', n)"
    and "i < j" "j < length ts"
    and "p \<in> set (result_files (input_path c) d (ts ! i))"
    and "p \<in> set (result_files (input_path c) d (ts ! j))"
  shows "reconcile c d all_images ts = Inl AssertionError"
proof -
  let ?init = "\<lparr> cr_info = None, cr_detection_categories = None, cr_images = [] \<rparr>"
  note ct = load_results_Inr(2)[OF assms(1)]
  note files = check_tasks_files[OF ct]
  have nd: "\<not> distinct (concat (map merged_files ts'))"
  proof
    assume "distinct (concat (map merged_files ts'))"
    then have "distinct (concat (map (result_files (input_path c) d) ts))"
      using files by simp
    from distinct_concat_nth_disjoint[OF this assms(2)] assms(2,3,4,5) show False
      by (auto simp: nth_map)
  qed
  have "\<exists>e. merge_tasks 0 ts' ?init {} = Inl e"
  proof (cases "merge_tasks 0 ts' ?init {}")
    case (Inl e)
    then show ?thesis by blast
  next
    case (Inr cr)
    from merge_tasks_Inr[OF Inr] nd show ?thesis by simp
  qed
  then obtain e where e: "merge_tasks 0 ts' ?init {} = Inl e" ..
  have "e = AssertionError"
    by (rule merge_tasks_error_assertion[OF _ _ e]) (use files in auto)
  with e show ?thesis
    using assms(1)
    by (simp add: reconcile_def merge_and_make_relative_def merge_results_def)
qed

lemma reconcile_CountMismatch:
  fixes c :: config
  assumes "reconcile c d all_images ts = Inl (CountMismatch a b)"
  shows "a = length all_images \<and> b = (\<Sum>t\<leftarrow>ts. length (output_records d t)) \<and> a \<noteq> b"
proof -
  have "\<exists>ts' n. load_results c d ts = Inr (ts', n)"
  proof (cases "load_results c d ts")
    case (Inl e)
    with assms have e: "load_results c d ts = Inl (CountMismatch a b)"
      by (simp add: reconcile_def)
    show ?thesis
    proof (cases "check_output_files d ts")
      case (Inl e')
      with e have "e' = CountMismatch a b" by (simp add: load_results_def)
      with check_output_files_error[OF Inl] show ?thesis by auto
    next
      case (Inr u)
      show ?thesis
      proof (cases "check_tasks (input_path c) d 0 ts 0")
        case (Inl e')
        with Inr e have e': "check_tasks (input_path c) d 0 ts 0 = Inl (CountMismatch a b)"
          by (simp add: load_results_def)
        have "\<And>root i n0. check_tasks root d i ts n0 \<noteq> Inl (CountMismatch a b)"
        proof (induction ts)
          case Nil
          then show ?case by simp
        next
          case (Cons t ts)
          have "check_task root d i t \<noteq> Inl (CountMismatch a b)"
            by (auto simp: check_task_def split: option.splits file_content.splits sum.splits
                dest: check_images_error)
          with Cons show ?case by (auto split: sum.splits)
        qed
        with e' show ?thesis by blast
      next
        case (Inr x)
        with \<open>check_output_files d ts = Inr u\<close> e show ?thesis
          by (cases x) (auto simp: load_results_def split: if_splits)
      qed
    qed
  next
    case (Inr x)
    then show ?thesis by (cases x) auto
  qed
  then obtain ts' n where lr: "load_results c d ts = Inr (ts', n)" by blast
  with assms have "merge_and_make_relative c all_images ts' = Inl (CountMismatch a b)"
    by (simp add: reconcile_def)
  from merge_and_make_relative_error[OF this] obtain cr where
    m: "merge_tasks 0 ts' \<lparr> cr_info = None, cr_detection_categories = None, cr_images = [] \<rparr> {}
          = Inr cr"
    and a: "a = length all_images" and b: "b = length (cr_images cr)" and ne: "b \<noteq> a"
    by auto
  note files = check_tasks_files[OF load_results_Inr(2)[OF lr]]
  from merge_tasks_Inr[OF m] files
  have "map im_file (cr_images cr) = concat (map (result_files (input_path c) d) ts)"
    by simp
  then have "length (cr_images cr) = (\<Sum>t\<leftarrow>ts. length (output_records d t))"
    by (metis length_map length_concat_result_files)
  with a b ne show ?thesis by simp
qed

lemmas ex_defs = ex_config_def ex_task_def ex_tasks_def ex_image_def ex_output_def
  ex_manifests_def ex_disk_def default_config_def

section \<open>Chunks: sizes and concatenation\<close>

lemma concat_slices:
  assumes "f 0 = 0" "\<And>i. i < c \<Longrightarrow> f (Suc i) = f i + g i"
  shows "concat (map (\<lambda>i. take (g i) (drop (f i) L)) [0..<c]) = take (f c) L"
  using assms(2)
proof (induction c)
  case 0
  then show ?case by (simp add: assms(1))
next
  case (Suc c)
  then have "concat (map (\<lambda>i. take (g i) (drop (f i) L)) [0..<c]) = take (f c) L"
    by simp
  moreover have "f (Suc c) = f c + g c" using Suc.prems by simp
  ultimately show ?case by (simp add: take_add)
qed

lemma chunk_bounds:
  fixes m c :: nat
  assumes "0 < c"
  defines "k \<equiv> m div c" and "r \<equiv> m mod c"
  shows "c * k + min c r = m"
    and "i < c \<Longrightarrow> Suc i * k + min (Suc i) r = (i * k + min i r) + (k + (if i < r then 1 else 0))"
    and "i < c \<Longrightarrow> Suc i * k + min (Suc i) r \<le> m"
proof -
  have r: "r < c" using assms(1) by (simp add: r_def)
  then show 1: "c * k + min c r = m" by (simp add: k_def r_def min_def)
  show "i < c \<Longrightarrow> Suc i * k + min (Suc i) r = (i * k + min i r) + (k + (if i < r then 1 else 0))"
    by (simp add: min_def)
  assume i: "i < c"
  then have "Suc i * k \<le> c * k" by (intro mult_le_mono1) simp
  moreover have "min (Suc i) r \<le> min c r" using i by simp
  ultimately show "Suc i * k + min (Suc i) r \<le> m" using 1 by linarith
qed

lemma split_nth:
  assumes "i < min n (length L)"
  shows "split_list_into_n_chunks L n ! i =
           take (length L div min n (length L) + (if i < length L mod min n (length L) then 1 else 0))
             (drop (i * (length L div min n (length L)) + min i (length L mod min n (length L))) L)"
  using assms by (simp add: split_list_into_n_chunks_def Let_def)

lemma split_length: "length (split_list_into_n_chunks L n) = min n (length L)"
  by (simp add: split_list_into_n_chunks_def Let_def)

lemma split_chunk_length:
  assumes "i < min n (length L)"
  shows "length (split_list_into_n_chunks L n ! i)
           = length L div min n (length L) + (if i < length L mod min n (length L) then 1 else 0)"
proof -
  define c where "c = min n (length L)"
  define g where "g = length L div c + (if i < length L mod c then 1 else 0)"
  define s where "s = i * (length L div c) + min i (length L mod c)"
  have c: "0 < c" and i: "i < c" using assms by (auto simp: c_def)
  from chunk_bounds(2,3)[OF c i, of "length L"]
  have "s + g \<le> length L"
    by (simp add: s_def g_def)
  then have "length (take g (drop s L)) = g" by simp
  then show ?thesis
    unfolding split_nth[OF assms] g_def s_def c_def .
qed

lemma split_concat:
  assumes "0 < n"
  shows "concat (split_list_into_n_chunks L n) = L"
proof (cases "L = []")
  case True
  then show ?thesis by (simp add: split_list_into_n_chunks_def)
next
  case False
  let ?c = "min n (length L)"
  let ?k = "length L div ?c"
  let ?r = "length L mod ?c"
  have c: "0 < ?c" using assms False by simp
  have "concat (map (\<lambda>i. take (?k + (if i < ?r then 1 else 0)) (drop (i * ?k + min i ?r) L)) [0..<?c])
      = take (?c * ?k + min ?c ?r) L"
    by (rule concat_slices) (use chunk_bounds(2)[OF c, of _ "length L"] in auto)
  also have "\<dots> = L" using chunk_bounds(1)[OF c, of "length L"] by simp
  finally show ?thesis by (simp add: split_list_into_n_chunks_def Let_def)
qed

lemma split_balanced:
  assumes "c1 \<in> set (split_list_into_n_chunks L n)" "c2 \<in> set (split_list_into_n_chunks L n)"
  shows "length c1 \<le> length c2 + 1"
proof -
  from assms obtain i j where i: "i < min n (length L)" "c1 = split_list_into_n_chunks L n ! i"
    and j: "j < min n (length L)" "c2 = split_list_into_n_chunks L n ! j"
    by (auto simp: in_set_conv_nth split_length)
  show ?thesis
    unfolding i(2) j(2) split_chunk_length[OF i(1)] split_chunk_length[OF j(1)] by simp
qed

section \<open>Chunk file names: distinct, and matched by the pattern\<close>

lemma lt_10_cases:
  "j < (10::nat) \<Longrightarrow> j = 0 \<or> j = 1 \<or> j = 2 \<or> j = 3 \<or> j = 4 \<or> j = 5 \<or> j = 6 \<or> j = 7 \<or> j = 8 \<or> j = 9"
  by arith

lemma digit_char_props:
  "digit_value (digit_char d) = d mod 10" "is_digit (digit_char d)"
  "digit_char d \<noteq> CHR ''+''" "digit_char d \<noteq> CHR ''-''"
proof -
  have "d mod 10 < 10" by simp
  from lt_10_cases[OF this]
  show "digit_value (digit_char d) = d mod 10" "is_digit (digit_char d)"
    "digit_char d \<noteq> CHR ''+''" "digit_char d \<noteq> CHR ''-''"
    by (auto simp: digit_char_def digit_value_def is_digit_def)
qed

lemma nat_of_digits_snoc:
  "nat_of_digits (s @ [ch]) = 10 * nat_of_digits s + digit_value ch"
  by (simp add: nat_of_digits_def)

lemma nat_of_digits_str_nat: "nat_of_digits (str_nat n) = n"
proof (induction n rule: str_nat.induct)
  case (1 n)
  show ?case
  proof (cases "n < 10")
    case True
    then show ?thesis
      by (simp add: str_nat.simps[of n] nat_of_digits_def digit_char_props)
  next
    case False
    with 1 have "nat_of_digits (str_nat (n div 10)) = n div 10" by simp
    with False show ?thesis
      by (simp add: str_nat.simps[of n] nat_of_digits_snoc digit_char_props)
  qed
qed

lemma str_nat_digits: "str_nat n \<noteq> [] \<and> (\<forall>ch\<in>set (str_nat n). is_digit ch)"
proof (induction n rule: str_nat.induct)
  case (1 n)
  show ?case
  proof (cases "n < 10")
    case True
    then show ?thesis by (simp add: str_nat.simps[of n] digit_char_props)
  next
    case False
    with 1 show ?thesis by (simp add: str_nat.simps[of n] digit_char_props)
  qed
qed

lemma zfill_digits:
  assumes "s \<noteq> []" "\<forall>ch\<in>set s. is_digit ch"
  shows "zfill w s = replicate (w - length s) (CHR ''0'') @ s"
proof -
  from assms obtain ch cs where s: "s = ch # cs" by (cases s) auto
  with assms(2) have "is_digit ch" by simp
  then have "ch \<noteq> CHR ''+''" "ch \<noteq> CHR ''-''" by (auto simp: is_digit_def)
  then show ?thesis by (simp add: zfill_def s)
qed

lemma nat_of_digits_zeros:
  "nat_of_digits (replicate k (CHR ''0'') @ s) = nat_of_digits s"
proof -
  have "foldl (\<lambda>a ch. 10 * a + digit_value ch) 0 (replicate k (CHR ''0'')) = 0"
    by (induction k) (simp_all add: digit_value_def)
  then show ?thesis by (simp add: nat_of_digits_def)
qed

lemma zfill_str_nat:
  "zfill w (str_nat n) = replicate (w - length (str_nat n)) (CHR ''0'') @ str_nat n"
  using str_nat_digits[of n] by (intro zfill_digits) auto

lemma nat_of_digits_zfill: "nat_of_digits (zfill w (str_nat n)) = n"
  by (simp add: zfill_str_nat nat_of_digits_zeros nat_of_digits_str_nat)

lemma zfill_str_nat_digits:
  "zfill w (str_nat n) \<noteq> [] \<and> (\<forall>ch\<in>set (zfill w (str_nat n)). is_digit ch)"
proof -
  have z: "is_digit (CHR ''0'')" by (simp add: is_digit_def)
  from str_nat_digits[of n] z show ?thesis
    unfolding zfill_str_nat by auto
qed

lemma chunk_name_inj: "chunk_name i = chunk_name j \<Longrightarrow> i = j"
proof -
  assume "chunk_name i = chunk_name j"
  then have "zfill 3 (str_nat i) = zfill 3 (str_nat j)"
    by (simp add: chunk_name_def)
  then have "nat_of_digits (zfill 3 (str_nat i)) = nat_of_digits (zfill 3 (str_nat j))"
    by simp
  then show "i = j" by (simp add: nat_of_digits_zfill)
qed

lemma chunk_name_not_abs: "\<not> startswith (chunk_name i) ''/''"
  by (simp add: startswith_def chunk_name_def)

lemma path_join_inj:
  assumes "\<not> startswith a ''/''" "\<not> startswith b ''/''" "path_join base a = path_join base b"
  shows "a = b"
  using assms by (auto simp: path_join_def split: if_splits)

lemma chunk_path_inj:
  assumes "path_join base (chunk_name i) = path_join base (chunk_name j)"
  shows "i = j"
proof -
  have "chunk_name i = chunk_name j"
    by (rule path_join_inj[OF chunk_name_not_abs chunk_name_not_abs assms])
  then show ?thesis by (rule chunk_name_inj)
qed

lemma takeWhile_digits:
  assumes "\<forall>ch\<in>set z. is_digit ch" "\<not> is_digit c"
  shows "takeWhile is_digit (z @ c # rest) = z"
  using assms by (simp add: takeWhile_append2)

lemma chunk_pattern_match_chunk_name: "chunk_pattern_match (chunk_name i)"
proof -
  define z where "z = zfill 3 (str_nat i)"
  have z: "z \<noteq> []" "\<forall>ch\<in>set z. is_digit ch"
    using zfill_str_nat_digits[of 3 i] by (auto simp: z_def)
  have sw: "startswith (chunk_name i) ''chunk''"
    by (simp add: chunk_name_def startswith_def)
  have rest: "drop 5 (chunk_name i) = z @ ''.json''"
    by (simp add: chunk_name_def z_def)
  have "\<not> is_digit (CHR ''.'')" by (simp add: is_digit_def)
  then have tw: "takeWhile is_digit (z @ ''.json'') = z"
    using z(2) by (simp add: takeWhile_append2)
  have len: "length z \<in> set [1..<Suc (length z)]" using z(1) by (cases z) auto
  define ok where "ok = (\<lambda>k. case drop k (z @ ''.json'') of
                    [] \<Rightarrow> False
                  | c # cs \<Rightarrow> c \<noteq> CHR 0x0A \<and> startswith cs ''json'')"
  have "ok (length z)"
    by (simp add: ok_def startswith_def)
  with len have "list_ex ok [1..<Suc (length z)]"
    unfolding list_ex_iff by blast
  then have "startswith (chunk_name i) ''chunk'' \<and>
      list_ex ok [1..<Suc (length (takeWhile is_digit (drop 5 (chunk_name i))))]"
    using sw by (simp only: rest tw)
  then show ?thesis
    unfolding chunk_pattern_match_def Let_def rest ok_def .
qed

section \<open>The manifests on disk\<close>

lemma write_file_lists_Cons:
  "write_file_lists base i (c # cs) d =
     (\<lparr> task_id = i, input_file = path_join base (chunk_name i), output_file = None,
        command = None, command_file = None, resume_command = None,
        resume_command_file = None, n_failures = None, task_results = None \<rparr>
      # fst (write_file_lists base (Suc i) cs (d(path_join base (chunk_name i) \<mapsto> ImageList c))),
      snd (write_file_lists base (Suc i) cs (d(path_join base (chunk_name i) \<mapsto> ImageList c))))"
  by (simp add: Let_def case_prod_beta)

lemma write_file_lists_other:
  "(\<And>k. k < length chunks \<Longrightarrow> p \<noteq> path_join base (chunk_name (i + k))) \<Longrightarrow>
     snd (write_file_lists base i chunks d) p = d p"
proof (induction chunks arbitrary: i d)
  case Nil
  then show ?case by simp
next
  case (Cons c cs)
  have "snd (write_file_lists base (Suc i) cs (d(path_join base (chunk_name i) \<mapsto> ImageList c))) p
      = (d(path_join base (chunk_name i) \<mapsto> ImageList c)) p"
  proof (rule Cons.IH)
    fix k assume "k < length cs"
    then have "Suc k < length (c # cs)" by simp
    from Cons.prems[OF this] show "p \<noteq> path_join base (chunk_name (Suc i + k))" by simp
  qed
  moreover have "p \<noteq> path_join base (chunk_name i)"
    using Cons.prems[of 0] by simp
  ultimately show ?case
    unfolding write_file_lists_Cons by simp
qed

lemma write_file_lists_written:
  "k < length chunks \<Longrightarrow>
     snd (write_file_lists base i chunks d) (path_join base (chunk_name (i + k)))
       = Some (ImageList (chunks ! k))"
proof (induction chunks arbitrary: i d k)
  case Nil
  then show ?case by simp
next
  case (Cons c cs)
  let ?d = "d(path_join base (chunk_name i) \<mapsto> ImageList c)"
  show ?case
  proof (cases k)
    case 0
    have "snd (write_file_lists base (Suc i) cs ?d) (path_join base (chunk_name i))
        = ?d (path_join base (chunk_name i))"
    proof (rule write_file_lists_other)
      fix k
      show "path_join base (chunk_name i) \<noteq> path_join base (chunk_name (Suc i + k))"
        using chunk_path_inj[of base i "Suc i + k"] by auto
    qed
    with 0 show ?thesis unfolding write_file_lists_Cons by simp
  next
    case (Suc k')
    with Cons.prems have "k' < length cs" by simp
    then have "snd (write_file_lists base (Suc i) cs ?d)
        (path_join base (chunk_name (Suc i + k'))) = Some (ImageList (cs ! k'))"
      by (rule Cons.IH)
    with Suc show ?thesis
      unfolding write_file_lists_Cons by simp
  qed
qed

lemma write_file_lists_tasks:
  "map input_file (fst (write_file_lists base i chunks d))
     = map (\<lambda>k. path_join base (chunk_name k)) [i..<i + length chunks]
   \<and> map task_id (fst (write_file_lists base i chunks d)) = [i..<i + length chunks]"
proof (induction chunks arbitrary: i d)
  case Nil
  then show ?case by simp
next
  case (Cons c cs)
  define d1 where "d1 = d(path_join base (chunk_name i) \<mapsto> ImageList c)"
  have up: "[i..<i + length (c # cs)] = i # [Suc i..<Suc i + length cs]"
    by (simp add: upt_conv_Cons del: upt_Suc)
  have ih1: "map input_file (fst (write_file_lists base (Suc i) cs d1))
      = map (\<lambda>k. path_join base (chunk_name k)) [Suc i..<Suc i + length cs]"
    and ih2: "map task_id (fst (write_file_lists base (Suc i) cs d1))
      = [Suc i..<Suc i + length cs]"
    using Cons.IH[of "Suc i" d1] by blast+
  show ?case
    unfolding write_file_lists_Cons up d1_def[symmetric]
    by (simp add: ih1 ih2 del: upt_Suc)
qed

lemma write_file_lists_manifests:
  "map (manifest_of (snd (write_file_lists base 0 chunks d))) (fst (write_file_lists base 0 chunks d))
     = chunks"
proof (rule nth_equalityI)
  have len: "length (fst (write_file_lists base 0 chunks d)) = length chunks"
    using write_file_lists_tasks[of base 0 chunks d] by (metis add_0 length_map length_upt minus_nat.diff_0)
  then show "length (map (manifest_of (snd (write_file_lists base 0 chunks d)))
        (fst (write_file_lists base 0 chunks d))) = length chunks"
    by simp
  fix k
  assume "k < length (map (manifest_of (snd (write_file_lists base 0 chunks d)))
        (fst (write_file_lists base 0 chunks d)))"
  with len have k: "k < length chunks" by simp
  have "input_file (fst (write_file_lists base 0 chunks d) ! k)
      = map input_file (fst (write_file_lists base 0 chunks d)) ! k"
    using k len by simp
  also have "\<dots> = path_join base (chunk_name k)"
    using write_file_lists_tasks[of base 0 chunks d] k by simp
  finally have inp: "input_file (fst (write_file_lists base 0 chunks d) ! k)
      = path_join base (chunk_name k)" .
  show "map (manifest_of (snd (write_file_lists base 0 chunks d)))
        (fst (write_file_lists base 0 chunks d)) ! k = chunks ! k"
    using k len write_file_lists_written[OF k, of base 0 d]
    by (simp add: manifest_of_def inp)
qed

section \<open>Loading the manifests back\<close>

lemma load_chunks_lists:
  "\<forall>f\<in>set fs. \<exists>l. d (path_join base f) = Some (ImageList l) \<Longrightarrow>
     load_chunks base d fs acc
       = Inr (acc @ concat (map (\<lambda>f. list_at d (path_join base f)) fs))"
proof (induction fs arbitrary: acc)
  case Nil
  then show ?case by simp
next
  case (Cons f fs)
  from Cons.prems obtain l where l: "d (path_join base f) = Some (ImageList l)" by auto
  from Cons.prems have "\<forall>f\<in>set fs. \<exists>l. d (path_join base f) = Some (ImageList l)" by simp
  from Cons.IH[OF this, of "acc @ l"] l show ?case
    by (simp add: list_at_def)
qed

lemma load_chunks_not_list:
  assumes "f \<in> set fs" "d (path_join base f) = Some content" "\<forall>l. content \<noteq> ImageList l"
    and "\<forall>g\<in>set fs. d (path_join base g) \<noteq> None"
  shows "load_chunks base d fs acc = Inl AssertionError"
  using assms
proof (induction fs arbitrary: acc)
  case Nil
  then show ?case by simp
next
  case (Cons g gs)
  from Cons.prems(4) obtain cg where cg: "d (path_join base g) = Some cg" by auto
  show ?case
  proof (cases cg)
    case (ImageList l)
    with cg Cons.prems(2,3) have "f \<noteq> g" by auto
    with Cons.prems(1) have "f \<in> set gs" by simp
    from Cons.IH[OF this Cons.prems(2,3)] Cons.prems(4) cg ImageList show ?thesis
      by simp
  qed (use cg in simp_all)
qed

lemma mset_concat_map_cong:
  "mset xs = mset ys \<Longrightarrow> mset (concat (map g xs)) = mset (concat (map g ys))"
proof -
  assume a: "mset xs = mset ys"
  have "\<And>zs. mset (concat (map g zs)) = sum_mset (image_mset (\<lambda>z. mset (g z)) (mset zs))"
    by (induct_tac zs) simp_all
  with a show ?thesis by simp
qed

lemma written_lists:
  "map (\<lambda>f. list_at (snd (write_file_lists base 0 chunks d0)) (path_join base f))
       (map chunk_name [0..<length chunks]) = chunks"
proof (rule nth_equalityI)
  show "length (map (\<lambda>f. list_at (snd (write_file_lists base 0 chunks d0)) (path_join base f))
       (map chunk_name [0..<length chunks])) = length chunks"
    by simp
  fix k
  assume "k < length (map (\<lambda>f. list_at (snd (write_file_lists base 0 chunks d0)) (path_join base f))
       (map chunk_name [0..<length chunks]))"
  then have k: "k < length chunks" by simp
  from write_file_lists_written[OF k, of base 0 d0] k
  show "map (\<lambda>f. list_at (snd (write_file_lists base 0 chunks d0)) (path_join base f))
       (map chunk_name [0..<length chunks]) ! k = chunks ! k"
    by (simp add: list_at_def)
qed

lemma chunk_names_distinct: "distinct (map chunk_name [0..<c])"
  by (simp add: distinct_map inj_on_def) (use chunk_name_inj in blast)

section \<open>The failure key\<close>

text \<open>
  C9. In the check of one task, a record is counted as a failure exactly when it has the
  key \<open>failure\<close>: when the check of the task succeeds, the count is the number of
  records with that key, and none of them holds null. A record whose \<open>failure\<close> key
  holds null makes the check of the task fail with an assertion error, and so the
  reconciliation fails; the record is not counted either way.
\<close>

theorem failure_key_counted:
  fixes c :: config
  assumes "k < length ts"
    and "output_file (ts ! k) = Some output_fn"
    and "d (input_file (ts ! k)) = Some (ImageList task_images)"
    and "d output_fn = Some (DetectorOutput res)"
  shows "(\<forall>t' n. check_task (input_path c) d k (ts ! k) = Inr (t', n) \<longrightarrow>
            n = length (filter (\<lambda>im. failure im \<noteq> None) (images res)) \<and>
            n_failures t' = Some n \<and>
            (\<forall>im\<in>set (images res). failure im \<noteq> Some None))
       \<and> ((\<exists>im\<in>set (images res). failure im = Some None) \<longrightarrow>
            check_task (input_path c) d k (ts ! k) = Inl AssertionError \<and>
            (\<exists>e. reconcile c d all_images ts = Inl e))"
proof (intro conjI allI impI)
  fix t' n
  assume ok: "check_task (input_path c) d k (ts ! k) = Inr (t', n)"
  from ok assms show "n = length (filter (\<lambda>im. failure im \<noteq> None) (images res))"
    by (elim check_task_Inr) simp
  from ok show "n_failures t' = Some n"
    by (elim check_task_Inr) simp
  from ok assms show "\<forall>im\<in>set (images res). failure im \<noteq> Some None"
    by (elim check_task_Inr) simp
next
  assume "\<exists>im\<in>set (images res). failure im = Some None"
  then obtain im where im: "im \<in> set (images res)" "failure im = Some None" by blast
  show f: "check_task (input_path c) d k (ts ! k) = Inl AssertionError"
    using check_task_null_fails[OF assms(2-4) im] .
  then have "check_task (input_path c) d (0 + k) (ts ! k) = Inl AssertionError"
    by simp
  with assms(1) obtain e' where "check_tasks (input_path c) d 0 ts 0 = Inl e'"
    using check_tasks_Inl_nth by blast
  then obtain e where "load_results c d ts = Inl e"
    using load_results_Inl_of_check_tasks by blast
  then show "\<exists>e. reconcile c d all_images ts = Inl e"
    using reconcile_Inl_of_load by blast
qed

theorem failure_key_counted_witness:
  "(\<exists>t'. check_task ''/d''
           (ex_disk [ex_image ''/d/a.jpg'' (Some (Some ''Failure image access'')),
                     ex_image ''b.jpg'' None] []) 0 (ex_tasks ! 0) = Inr (t', 1)
         \<and> n_failures t' = Some 1)
   \<and> check_task ''/d''
        (ex_disk [ex_image ''/d/a.jpg'' (Some None), ex_image ''/d/b.jpg'' None] [])
        0 (ex_tasks ! 0) = Inl AssertionError
   \<and> (\<exists>e. reconcile ex_config
         (ex_disk [ex_image ''/d/a.jpg'' (Some None), ex_image ''/d/b.jpg'' None] [])
         [''/d/a.jpg'', ''/d/b.jpg'', ''/d/c.jpg''] ex_tasks = Inl e)"
proof -
  let ?r1 = "[ex_image ''/d/a.jpg'' (Some (Some ''Failure image access'')),
              ex_image ''b.jpg'' None]"
  let ?r2 = "[ex_image ''/d/a.jpg'' (Some None), ex_image ''/d/b.jpg'' None]"
  let ?d1 = "ex_disk ?r1 []"
  let ?d2 = "ex_disk ?r2 []"
  have ip: "input_path ex_config = ''/d''" by (simp add: ex_defs)
  have h1: "0 < length ex_tasks" by (simp add: ex_defs)
  have h2: "output_file (ex_tasks ! 0) = Some ''/j/chunk000_results.json''"
    by (simp add: ex_defs)
  have m1: "?d1 (input_file (ex_tasks ! 0)) = Some (ImageList [''/d/a.jpg'', ''/d/b.jpg''])"
    and m2: "?d2 (input_file (ex_tasks ! 0)) = Some (ImageList [''/d/a.jpg'', ''/d/b.jpg''])"
    by (simp_all add: ex_defs)
  have o1: "?d1 ''/j/chunk000_results.json'' = Some (DetectorOutput (ex_output ?r1))"
    and o2: "?d2 ''/j/chunk000_results.json'' = Some (DetectorOutput (ex_output ?r2))"
    by (simp_all add: ex_defs)
  have "\<not> isl (check_task ''/d'' ?d1 0 (ex_tasks ! 0))"
    by code_simp
  then obtain t' n where run: "check_task ''/d'' ?d1 0 (ex_tasks ! 0) = Inr (t', n)"
    by (cases "check_task ''/d'' ?d1 0 (ex_tasks ! 0)") auto
  from failure_key_counted[OF h1 h2 m1 o1, where c = ex_config] run ip
  have "n = length (filter (\<lambda>im. failure im \<noteq> None) (images (ex_output ?r1)))"
    and nf: "n_failures t' = Some n"
    by auto
  then have "n = 1" by (simp add: ex_defs)
  with run nf
  have a: "\<exists>t'. check_task ''/d'' ?d1 0 (ex_tasks ! 0) = Inr (t', 1) \<and> n_failures t' = Some 1"
    by auto
  have "\<exists>im\<in>set (images (ex_output ?r2)). failure im = Some None"
    by (simp add: ex_defs)
  with failure_key_counted[OF h1 h2 m2 o2, where c = ex_config
      and all_images = "[''/d/a.jpg'', ''/d/b.jpg'', ''/d/c.jpg'']"] ip
  have b: "check_task ''/d'' ?d2 0 (ex_tasks ! 0) = Inl AssertionError
       \<and> (\<exists>e. reconcile ex_config ?d2 [''/d/a.jpg'', ''/d/b.jpg'', ''/d/c.jpg''] ex_tasks = Inl e)"
    by simp
  from a b show ?thesis by simp
qed

section \<open>The tolerance for failed images\<close>

text \<open>
  C4. When every output file exists and every task has passed its check, the total the
  cell has accumulated is the number of records, over all tasks, whose \<open>failure\<close> key
  holds a text (none holds null then). The cell fails exactly when that total is at
  least \<open>max_tolerable_failed_images\<close>, with the error that names the total and the
  ceiling; a total below the ceiling passes.
\<close>

theorem tolerance_ceiling:
  fixes c :: config
  assumes "check_output_files d task_info = Inr ()"
    and "check_tasks (input_path c) d 0 task_info 0 = Inr (tasks, n_total)"
  shows "n_total = (\<Sum>t\<leftarrow>task_info. length (filter (\<lambda>im. \<exists>msg. failure im = Some (Some msg))
                                         (output_records d t)))
       \<and> ((\<exists>e. load_results c d task_info = Inl e)
            \<longleftrightarrow> max_tolerable_failed_images c \<le> int n_total)
       \<and> (max_tolerable_failed_images c \<le> int n_total \<longrightarrow>
            load_results c d task_info
              = Inl (TooManyFailures n_total (max_tolerable_failed_images c)))
       \<and> (int n_total < max_tolerable_failed_images c \<longrightarrow>
            load_results c d task_info = Inr (tasks, n_total))"
  using assms check_tasks_total_non_null[OF assms(2)]
  by (auto simp: load_results_def)

theorem tolerance_ceiling_witness:
  "(\<exists>tasks. load_results ex_config
       (ex_disk [ex_image ''/d/a.jpg'' (Some (Some ''Failure image access'')),
                 ex_image ''/d/b.jpg'' None] [ex_image ''/d/c.jpg'' None])
       ex_tasks = Inr (tasks, 1))
   \<and> load_results (ex_config\<lparr> max_tolerable_failed_images := 1 \<rparr>)
       (ex_disk [ex_image ''/d/a.jpg'' (Some (Some ''Failure image access'')),
                 ex_image ''/d/b.jpg'' None] [ex_image ''/d/c.jpg'' None])
       ex_tasks = Inl (TooManyFailures 1 1)"
proof -
  let ?d = "ex_disk [ex_image ''/d/a.jpg'' (Some (Some ''Failure image access'')),
                 ex_image ''/d/b.jpg'' None] [ex_image ''/d/c.jpg'' None]"
  let ?c1 = "ex_config\<lparr> max_tolerable_failed_images := 1 \<rparr>"
  have ip: "input_path ex_config = ''/d''" "input_path ?c1 = ''/d''"
    and mx: "max_tolerable_failed_images ex_config = 100" "max_tolerable_failed_images ?c1 = 1"
    by (simp_all add: ex_defs)
  have files: "check_output_files ?d ex_tasks = Inr ()"
    by code_simp
  have "\<not> isl (check_tasks ''/d'' ?d 0 ex_tasks 0)"
    by code_simp
  then obtain tasks n where run: "check_tasks ''/d'' ?d 0 ex_tasks 0 = Inr (tasks, n)"
    by (cases "check_tasks ''/d'' ?d 0 ex_tasks 0") auto
  have total: "(\<Sum>t\<leftarrow>ex_tasks. length (filter (\<lambda>im. \<exists>msg. failure im = Some (Some msg))
                                         (output_records ?d t))) = 1"
    by (simp add: ex_defs output_records_def)
  from tolerance_ceiling[OF files, where c = ex_config, unfolded ip, OF run] total mx
  have a: "load_results ex_config ?d ex_tasks = Inr (tasks, 1)" by simp
  from tolerance_ceiling[OF files, where c = ?c1, unfolded ip, OF run] total mx
  have b: "load_results ?c1 ?d ex_tasks = Inl (TooManyFailures 1 1)" by simp
  from a b show ?thesis by blast
qed

section \<open>The merge of complete, disjoint results\<close>

text \<open>
  C2. Take tasks with results and the chunk manifests they were checked against. When
  every task's records are one per image of its manifest (the mapping from manifest to
  results is complete), the chunks are disjoint, the chunk sizes add up to the number of
  enumerated images, and the tasks agree on format version and categories, the merge
  succeeds: the combined result has as many records as there are enumerated images,
  which is the sum of the chunk sizes, and no path twice. When the same path is among
  the records of two different tasks, the merge fails.
\<close>

theorem merge_results_complete_disjoint:
  "(list_all2 (\<lambda>t m. \<exists>r. task_results t = Some r \<and> mset (map im_file (images r)) = mset m)
       tasks manifests
     \<and> distinct (concat manifests) \<and> length (concat manifests) = length all_images
     \<and> (\<forall>t\<in>set tasks. \<forall>r r0. task_results t = Some r \<and> task_results (hd tasks) = Some r0
            \<longrightarrow> same_metadata r r0)
    \<longrightarrow> (\<exists>cr. merge_results all_images tasks = Inr cr
           \<and> length (cr_images cr) = length all_images
           \<and> length (cr_images cr) = sum_list (map length manifests)
           \<and> distinct (map im_file (cr_images cr))
           \<and> mset (map im_file (cr_images cr)) = mset (concat manifests)))
   \<and> (i < j \<and> j < length tasks \<and> p \<in> set (merged_files (tasks ! i))
        \<and> p \<in> set (merged_files (tasks ! j))
    \<longrightarrow> (\<exists>e. merge_results all_images tasks = Inl e))"
proof (intro conjI impI)
  assume a: "list_all2 (\<lambda>t m. \<exists>r. task_results t = Some r \<and>
                 mset (map im_file (images r)) = mset m) tasks manifests
     \<and> distinct (concat manifests) \<and> length (concat manifests) = length all_images
     \<and> (\<forall>t\<in>set tasks. \<forall>r r0. task_results t = Some r \<and> task_results (hd tasks) = Some r0
            \<longrightarrow> same_metadata r r0)"
  then have la: "list_all2 (\<lambda>t m. \<exists>r. task_results t = Some r \<and>
                 mset (map im_file (images r)) = mset m) tasks manifests"
    and dm: "distinct (concat manifests)"
    and len: "length (concat manifests) = length all_images"
    and meta: "\<forall>t\<in>set tasks. \<forall>r r0. task_results t = Some r \<and> task_results (hd tasks) = Some r0
            \<longrightarrow> same_metadata r r0"
    by blast+
  from la have "list_all2 (\<lambda>t m. mset (merged_files t) = mset m) tasks manifests"
    by (rule list_all2_mono) (auto simp: merged_files_def)
  then have ms: "mset (concat (map merged_files tasks)) = mset (concat manifests)"
    by (rule mset_concat_list_all2)
  with dm have dist: "distinct (concat (map merged_files tasks))"
    using mset_eq_imp_distinct_iff by blast
  have res: "\<forall>t\<in>set tasks. \<exists>r. task_results t = Some r"
    using la by (induction rule: list_all2_induct) auto
  let ?init = "\<lparr> cr_info = None, cr_detection_categories = None, cr_images = [] \<rparr>"
  from merge_tasks_first_success[OF res meta dist, of "{}" ?init]
  obtain cr where m: "merge_tasks 0 tasks ?init {} = Inr cr" by auto
  from merge_tasks_Inr[OF m]
  have files: "map im_file (cr_images cr) = concat (map merged_files tasks)" by simp
  have l1: "length (cr_images cr) = length (concat manifests)"
    using files ms by (metis length_map size_mset)
  have d1: "distinct (map im_file (cr_images cr))" using files dist by simp
  then have c1: "card (set (map im_file (cr_images cr))) = length (cr_images cr)"
    using distinct_card by fastforce
  have "merge_results all_images tasks = Inr cr"
    using m l1 len c1 by (simp add: merge_results_def)
  moreover have "length (cr_images cr) = sum_list (map length manifests)"
    using l1 by (simp add: length_concat)
  moreover have "mset (map im_file (cr_images cr)) = mset (concat manifests)"
    using files ms by simp
  ultimately show "\<exists>cr. merge_results all_images tasks = Inr cr
           \<and> length (cr_images cr) = length all_images
           \<and> length (cr_images cr) = sum_list (map length manifests)
           \<and> distinct (map im_file (cr_images cr))
           \<and> mset (map im_file (cr_images cr)) = mset (concat manifests)"
    using l1 len d1 by auto
next
  assume b: "i < j \<and> j < length tasks \<and> p \<in> set (merged_files (tasks ! i))
        \<and> p \<in> set (merged_files (tasks ! j))"
  show "\<exists>e. merge_results all_images tasks = Inl e"
  proof (cases "merge_results all_images tasks")
    case (Inl e)
    then show ?thesis by blast
  next
    case (Inr cr)
    from merge_results_Inr(4)[OF Inr] b
    have "set (map merged_files tasks ! i) \<inter> set (map merged_files tasks ! j) = {}"
      by (intro distinct_concat_nth_disjoint) auto
    with b show ?thesis by auto
  qed
qed

theorem merge_results_complete_disjoint_witness:
  "(\<exists>cr. merge_results [''/d/a.jpg'', ''/d/b.jpg'', ''/d/c.jpg'']
       [ex_task 0 ''chunk000''\<lparr> task_results :=
           Some (ex_output [ex_image ''/d/a.jpg'' None, ex_image ''/d/b.jpg'' None]) \<rparr>,
        ex_task 1 ''chunk001''\<lparr> task_results :=
           Some (ex_output [ex_image ''/d/c.jpg'' None]) \<rparr>] = Inr cr
      \<and> length (cr_images cr) = 3
      \<and> distinct (map im_file (cr_images cr)))
   \<and> (\<exists>e. merge_results [''/d/a.jpg'', ''/d/b.jpg'', ''/d/c.jpg'']
       [ex_task 0 ''chunk000''\<lparr> task_results :=
           Some (ex_output [ex_image ''/d/a.jpg'' None, ex_image ''/d/b.jpg'' None]) \<rparr>,
        ex_task 1 ''chunk001''\<lparr> task_results :=
           Some (ex_output [ex_image ''/d/b.jpg'' None]) \<rparr>] = Inl e)"
proof -
  let ?all = "[''/d/a.jpg'', ''/d/b.jpg'', ''/d/c.jpg'']"
  let ?t0 = "ex_task 0 ''chunk000''\<lparr> task_results :=
           Some (ex_output [ex_image ''/d/a.jpg'' None, ex_image ''/d/b.jpg'' None]) \<rparr>"
  let ?t1 = "ex_task 1 ''chunk001''\<lparr> task_results :=
           Some (ex_output [ex_image ''/d/c.jpg'' None]) \<rparr>"
  let ?t1' = "ex_task 1 ''chunk001''\<lparr> task_results :=
           Some (ex_output [ex_image ''/d/b.jpg'' None]) \<rparr>"
  let ?ms = "[[''/d/a.jpg'', ''/d/b.jpg''], [''/d/c.jpg'']]"
  have h: "list_all2 (\<lambda>t m. \<exists>r. task_results t = Some r \<and>
                 mset (map im_file (images r)) = mset m) [?t0, ?t1] ?ms
     \<and> distinct (concat ?ms) \<and> length (concat ?ms) = length ?all
     \<and> (\<forall>t\<in>set [?t0, ?t1]. \<forall>r r0. task_results t = Some r \<and>
            task_results (hd [?t0, ?t1]) = Some r0 \<longrightarrow> same_metadata r r0)"
    by (simp add: ex_defs same_metadata_def dict_eq_def)
  have g: "(0::nat) < 1 \<and> 1 < length [?t0, ?t1'] \<and>
      ''/d/b.jpg'' \<in> set (merged_files ([?t0, ?t1'] ! 0)) \<and>
      ''/d/b.jpg'' \<in> set (merged_files ([?t0, ?t1'] ! 1))"
    by (simp add: ex_defs merged_files_def)
  from merge_results_complete_disjoint[of "[?t0, ?t1]" ?ms ?all] h
  obtain cr where "merge_results ?all [?t0, ?t1] = Inr cr"
    and "length (cr_images cr) = length ?all" and "distinct (map im_file (cr_images cr))"
    by blast
  then have a: "\<exists>cr. merge_results ?all [?t0, ?t1] = Inr cr \<and> length (cr_images cr) = 3 \<and>
      distinct (map im_file (cr_images cr))"
    by auto
  from merge_results_complete_disjoint[of "[?t0, ?t1']" _ ?all 0 1 "''/d/b.jpg''"] g
  have b: "\<exists>e. merge_results ?all [?t0, ?t1'] = Inl e"
    by blast
  from a b show ?thesis by blast
qed

section \<open>What a completeness error reports\<close>

text \<open>
  C3, as stated, fails. The first task's manifest holds two images and its output file
  holds no record: the reconciliation stops with the error that names the first image
  only, though the second has no record either. And when two tasks' results hold the
  same path, the error is a bare assertion error that names no path.
\<close>

theorem only_first_missing_image_reported:
  "reconcile ex_config (ex_disk [] [ex_image ''/d/c.jpg'' None])
       [''/d/a.jpg'', ''/d/b.jpg'', ''/d/c.jpg''] ex_tasks
     = Inl (FileNotInResults ''/d/a.jpg'' 0)
   \<and> ''/d/a.jpg'' \<in> set (manifest_of (ex_disk [] [ex_image ''/d/c.jpg'' None]) (ex_tasks ! 0))
   \<and> ''/d/a.jpg'' \<notin> set (result_files ''/d'' (ex_disk [] [ex_image ''/d/c.jpg'' None])
                            (ex_tasks ! 0))
   \<and> ''/d/b.jpg'' \<in> set (manifest_of (ex_disk [] [ex_image ''/d/c.jpg'' None]) (ex_tasks ! 0))
   \<and> ''/d/b.jpg'' \<notin> set (result_files ''/d'' (ex_disk [] [ex_image ''/d/c.jpg'' None])
                            (ex_tasks ! 0))
   \<and> reconcile ex_config
       ((ex_disk [ex_image ''/d/a.jpg'' None, ex_image ''/d/b.jpg'' None]
                 [ex_image ''/d/b.jpg'' None, ex_image ''/d/c.jpg'' None])
          (''/j/chunk001.json'' \<mapsto> ImageList [''/d/b.jpg'', ''/d/c.jpg'']))
       [''/d/a.jpg'', ''/d/b.jpg'', ''/d/b.jpg'', ''/d/c.jpg''] ex_tasks
     = Inl AssertionError"
  by code_simp

text \<open>
  C3, amended. Each of the four completeness errors is fatal: the reconciliation returns
  an error, not a combined result. Missing output files are reported together, every
  missing file in task order. A manifest image without a result record is fatal, and the
  error for it names one image, the first of its task's manifest without a record, and
  the task. A path in the results of two tasks is fatal, and, when the per-task checks
  have passed, the error is the bare assertion error, which names no path. A number
  of merged records that differs from the number of enumerated images is fatal, and the
  error for it carries the two counts.
\<close>

theorem completeness_errors:
  fixes c :: config
  shows
  "((\<forall>t\<in>set tasks. output_file t \<noteq> None) \<and> (\<exists>t\<in>set tasks. d (the (output_file t)) = None)
      \<longrightarrow> reconcile c d all_images tasks
            = Inl (MissingOutputFiles
                    (filter (\<lambda>f. d f = None) (map (\<lambda>t. the (output_file t)) tasks))))
   \<and> ((\<exists>t\<in>set tasks. \<not> set (manifest_of d t) \<subseteq> set (result_files (input_path c) d t))
      \<longrightarrow> (\<exists>e. reconcile c d all_images tasks = Inl e))
   \<and> (reconcile c d all_images tasks = Inl (FileNotInResults fn k)
      \<longrightarrow> k < length tasks \<and>
          find (\<lambda>f. f \<notin> set (result_files (input_path c) d (tasks ! k)))
               (manifest_of d (tasks ! k)) = Some fn)
   \<and> (i < j \<and> j < length tasks \<and>
        p \<in> set (result_files (input_path c) d (tasks ! i)) \<and>
        p \<in> set (result_files (input_path c) d (tasks ! j))
      \<longrightarrow> (\<exists>e. reconcile c d all_images tasks = Inl e) \<and>
          ((\<exists>tasks' n. load_results c d tasks = Inr (tasks', n))
             \<longrightarrow> reconcile c d all_images tasks = Inl AssertionError))
   \<and> ((\<Sum>t\<leftarrow>tasks. length (output_records d t)) \<noteq> length all_images
      \<longrightarrow> (\<exists>e. reconcile c d all_images tasks = Inl e))
   \<and> (reconcile c d all_images tasks = Inl (CountMismatch a b)
      \<longrightarrow> a = length all_images \<and> b = (\<Sum>t\<leftarrow>tasks. length (output_records d t)) \<and> a \<noteq> b)"
proof (intro conjI impI)
  assume "(\<forall>t\<in>set tasks. output_file t \<noteq> None) \<and> (\<exists>t\<in>set tasks. d (the (output_file t)) = None)"
  then show "reconcile c d all_images tasks
            = Inl (MissingOutputFiles
                    (filter (\<lambda>f. d f = None) (map (\<lambda>t. the (output_file t)) tasks)))"
    using reconcile_missing_output_files by blast
next
  assume a: "\<exists>t\<in>set tasks. \<not> set (manifest_of d t) \<subseteq> set (result_files (input_path c) d t)"
  show "\<exists>e. reconcile c d all_images tasks = Inl e"
  proof (cases "reconcile c d all_images tasks")
    case (Inl e)
    then show ?thesis by blast
  next
    case (Inr cr)
    from reconcile_Inr(1)[OF Inr] a show ?thesis by blast
  qed
next
  assume "reconcile c d all_images tasks = Inl (FileNotInResults fn k)"
  from reconcile_FileNotInResults[OF this]
  show "k < length tasks"
    and "find (\<lambda>f. f \<notin> set (result_files (input_path c) d (tasks ! k)))
               (manifest_of d (tasks ! k)) = Some fn"
    by simp_all
next
  assume a: "i < j \<and> j < length tasks \<and>
        p \<in> set (result_files (input_path c) d (tasks ! i)) \<and>
        p \<in> set (result_files (input_path c) d (tasks ! j))"
  show "\<exists>e. reconcile c d all_images tasks = Inl e"
  proof (cases "reconcile c d all_images tasks")
    case (Inl e)
    then show ?thesis by blast
  next
    case (Inr cr)
    from reconcile_Inr(2)[OF Inr]
    have "set (map (result_files (input_path c) d) tasks ! i)
        \<inter> set (map (result_files (input_path c) d) tasks ! j) = {}"
      by (rule distinct_concat_nth_disjoint) (use a in auto)
    with a show ?thesis by (auto simp: nth_map)
  qed
  assume "\<exists>tasks' n. load_results c d tasks = Inr (tasks', n)"
  then obtain tasks' n where "load_results c d tasks = Inr (tasks', n)" by blast
  from reconcile_duplicate[OF this] a
  show "reconcile c d all_images tasks = Inl AssertionError" by blast
next
  assume a: "(\<Sum>t\<leftarrow>tasks. length (output_records d t)) \<noteq> length all_images"
  show "\<exists>e. reconcile c d all_images tasks = Inl e"
  proof (cases "reconcile c d all_images tasks")
    case (Inl e)
    then show ?thesis by blast
  next
    case (Inr cr)
    from reconcile_Inr(3)[OF Inr] a show ?thesis by simp
  qed
next
  assume "reconcile c d all_images tasks = Inl (CountMismatch a b)"
  from reconcile_CountMismatch[OF this]
  show "a = length all_images" and "b = (\<Sum>t\<leftarrow>tasks. length (output_records d t))"
    and "a \<noteq> b"
    by simp_all
qed

theorem completeness_errors_witness:
  "reconcile ex_config ex_manifests [''/d/a.jpg'', ''/d/b.jpg'', ''/d/c.jpg''] ex_tasks
     = Inl (MissingOutputFiles [''/j/chunk000_results.json'', ''/j/chunk001_results.json''])
   \<and> (\<exists>e. reconcile ex_config (ex_disk [] [ex_image ''/d/c.jpg'' None])
          [''/d/a.jpg'', ''/d/b.jpg'', ''/d/c.jpg''] ex_tasks = Inl e)
   \<and> find (\<lambda>f. f \<notin> set (result_files ''/d'' (ex_disk [] [ex_image ''/d/c.jpg'' None])
                             (ex_tasks ! 0)))
          (manifest_of (ex_disk [] [ex_image ''/d/c.jpg'' None]) (ex_tasks ! 0))
       = Some ''/d/a.jpg''
   \<and> reconcile ex_config
       ((ex_disk [ex_image ''/d/a.jpg'' None, ex_image ''/d/b.jpg'' None]
                 [ex_image ''/d/b.jpg'' None, ex_image ''/d/c.jpg'' None])
          (''/j/chunk001.json'' \<mapsto> ImageList [''/d/b.jpg'', ''/d/c.jpg'']))
       [''/d/a.jpg'', ''/d/b.jpg'', ''/d/b.jpg'', ''/d/c.jpg''] ex_tasks
     = Inl AssertionError
   \<and> (\<exists>e. reconcile ex_config
          (ex_disk [ex_image ''/d/a.jpg'' None, ex_image ''/d/b.jpg'' None]
                   [ex_image ''/d/c.jpg'' None])
          [''/d/a.jpg'', ''/d/b.jpg'', ''/d/c.jpg'', ''/d/e.jpg''] ex_tasks = Inl e)"
proof -
  let ?all = "[''/d/a.jpg'', ''/d/b.jpg'', ''/d/c.jpg'']"
  let ?d2 = "ex_disk [] [ex_image ''/d/c.jpg'' None]"
  let ?d3 = "(ex_disk [ex_image ''/d/a.jpg'' None, ex_image ''/d/b.jpg'' None]
                 [ex_image ''/d/b.jpg'' None, ex_image ''/d/c.jpg'' None])
          (''/j/chunk001.json'' \<mapsto> ImageList [''/d/b.jpg'', ''/d/c.jpg''])"
  let ?all3 = "[''/d/a.jpg'', ''/d/b.jpg'', ''/d/b.jpg'', ''/d/c.jpg'']"
  let ?d4 = "ex_disk [ex_image ''/d/a.jpg'' None, ex_image ''/d/b.jpg'' None]
                   [ex_image ''/d/c.jpg'' None]"
  let ?all4 = "[''/d/a.jpg'', ''/d/b.jpg'', ''/d/c.jpg'', ''/d/e.jpg'']"
  have ip: "input_path ex_config = ''/d''" by (simp add: ex_defs)
  \<comment> \<open>no output file is there\<close>
  have h1: "(\<forall>t\<in>set ex_tasks. output_file t \<noteq> None) \<and>
      (\<exists>t\<in>set ex_tasks. ex_manifests (the (output_file t)) = None)"
    by (simp add: ex_defs)
  have m1: "filter (\<lambda>f. ex_manifests f = None) (map (\<lambda>t. the (output_file t)) ex_tasks)
      = [''/j/chunk000_results.json'', ''/j/chunk001_results.json'']"
    by (simp add: ex_defs)
  from completeness_errors[where c = ex_config and d = ex_manifests and tasks = ex_tasks
      and all_images = ?all] h1 m1
  have w1: "reconcile ex_config ex_manifests ?all ex_tasks
     = Inl (MissingOutputFiles [''/j/chunk000_results.json'', ''/j/chunk001_results.json''])"
    by simp
  \<comment> \<open>the first task has no record for its two images\<close>
  have h2: "\<exists>t\<in>set ex_tasks. \<not> set (manifest_of ?d2 t) \<subseteq> set (result_files ''/d'' ?d2 t)"
    by code_simp
  from completeness_errors[where c = ex_config and d = ?d2 and tasks = ex_tasks
      and all_images = ?all] h2 ip
  have w2: "\<exists>e. reconcile ex_config ?d2 ?all ex_tasks = Inl e"
    by simp
  have r2: "reconcile ex_config ?d2 ?all ex_tasks = Inl (FileNotInResults ''/d/a.jpg'' 0)"
    by code_simp
  from completeness_errors[where c = ex_config and d = ?d2 and tasks = ex_tasks
      and all_images = ?all and fn = "''/d/a.jpg''" and k = 0] r2 ip
  have w3: "find (\<lambda>f. f \<notin> set (result_files ''/d'' ?d2 (ex_tasks ! 0)))
          (manifest_of ?d2 (ex_tasks ! 0)) = Some ''/d/a.jpg''"
    by simp
  \<comment> \<open>the two manifests and the two outputs share a path\<close>
  have h3: "(0::nat) < 1 \<and> 1 < length ex_tasks \<and>
      ''/d/b.jpg'' \<in> set (result_files ''/d'' ?d3 (ex_tasks ! 0)) \<and>
      ''/d/b.jpg'' \<in> set (result_files ''/d'' ?d3 (ex_tasks ! 1))"
    by code_simp
  have "\<not> isl (load_results ex_config ?d3 ex_tasks)"
    by code_simp
  then have l3: "\<exists>tasks' n. load_results ex_config ?d3 ex_tasks = Inr (tasks', n)"
    by (cases "load_results ex_config ?d3 ex_tasks") auto
  from completeness_errors[where c = ex_config and d = ?d3 and tasks = ex_tasks
      and all_images = ?all3 and i = 0 and j = 1 and p = "''/d/b.jpg''"] h3 l3 ip
  have w4: "reconcile ex_config ?d3 ?all3 ex_tasks = Inl AssertionError"
    by simp
  \<comment> \<open>three records, four enumerated images\<close>
  have h4: "(\<Sum>t\<leftarrow>ex_tasks. length (output_records ?d4 t)) \<noteq> length ?all4"
    by (simp add: ex_defs output_records_def)
  from completeness_errors[where c = ex_config and d = ?d4 and tasks = ex_tasks
      and all_images = ?all4] h4
  have w5: "\<exists>e. reconcile ex_config ?d4 ?all4 ex_tasks = Inl e"
    by simp
  from w1 w2 w3 w4 w5 show ?thesis by blast
qed

section \<open>Chunk planning\<close>

text \<open>
  C1. For a list of \<open>m\<close> images and a chunk count \<open>n > 0\<close>, the planning step gives
  \<open>n\<close> chunks, or \<open>min n m\<close> chunks when \<open>m < n\<close>; any two chunk sizes differ by
  at most one; the chunks in index order, and so the manifests written for the tasks in
  task order, give back the list: every path as often as in the list, none left out,
  none added.
\<close>

theorem split_list_into_n_chunks_partition:
  assumes "0 < n"
  shows "length (split_list_into_n_chunks L n) = (if length L < n then min n (length L) else n)
       \<and> (\<forall>c1\<in>set (split_list_into_n_chunks L n). \<forall>c2\<in>set (split_list_into_n_chunks L n).
             length c1 \<le> length c2 + 1)
       \<and> concat (split_list_into_n_chunks L n) = L
       \<and> mset (concat (split_list_into_n_chunks L n)) = mset L
       \<and> (\<forall>x. count_list (concat (split_list_into_n_chunks L n)) x = count_list L x)
       \<and> concat (map (manifest_of (snd (write_file_lists base 0 (split_list_into_n_chunks L n) d)))
                    (fst (write_file_lists base 0 (split_list_into_n_chunks L n) d))) = L
       \<and> map task_id (fst (write_file_lists base 0 (split_list_into_n_chunks L n) d))
           = [0..<length (split_list_into_n_chunks L n)]"
proof (intro conjI)
  show "length (split_list_into_n_chunks L n) = (if length L < n then min n (length L) else n)"
    by (simp add: split_length)
  show "\<forall>c1\<in>set (split_list_into_n_chunks L n). \<forall>c2\<in>set (split_list_into_n_chunks L n).
             length c1 \<le> length c2 + 1"
    using split_balanced by blast
  show c: "concat (split_list_into_n_chunks L n) = L"
    using assms by (rule split_concat)
  then show "mset (concat (split_list_into_n_chunks L n)) = mset L"
    and "\<forall>x. count_list (concat (split_list_into_n_chunks L n)) x = count_list L x"
    by simp_all
  show "concat (map (manifest_of (snd (write_file_lists base 0 (split_list_into_n_chunks L n) d)))
                    (fst (write_file_lists base 0 (split_list_into_n_chunks L n) d))) = L"
    by (simp only: write_file_lists_manifests c)
  show "map task_id (fst (write_file_lists base 0 (split_list_into_n_chunks L n) d))
           = [0..<length (split_list_into_n_chunks L n)]"
    using write_file_lists_tasks[of base 0 "split_list_into_n_chunks L n" d] by simp
qed

theorem split_list_into_n_chunks_partition_witness:
  "split_list_into_n_chunks
      [''/d/a.jpg'', ''/d/b.jpg'', ''/d/c.jpg'', ''/d/d.jpg'', ''/d/e.jpg'', ''/d/f.jpg'',
       ''/d/g.jpg''] 2
     = [[''/d/a.jpg'', ''/d/b.jpg'', ''/d/c.jpg'', ''/d/d.jpg''],
        [''/d/e.jpg'', ''/d/f.jpg'', ''/d/g.jpg'']]
   \<and> length (split_list_into_n_chunks [''/d/a.jpg'', ''/d/b.jpg'', ''/d/c.jpg''] 5) = 3
   \<and> concat (split_list_into_n_chunks [''/d/a.jpg'', ''/d/b.jpg'', ''/d/c.jpg''] 5)
       = [''/d/a.jpg'', ''/d/b.jpg'', ''/d/c.jpg'']
   \<and> concat (map (manifest_of (snd (write_file_lists ''/j'' 0
                   (split_list_into_n_chunks [''/d/a.jpg'', ''/d/b.jpg'', ''/d/c.jpg''] 5)
                   Map.empty)))
          (fst (write_file_lists ''/j'' 0
                   (split_list_into_n_chunks [''/d/a.jpg'', ''/d/b.jpg'', ''/d/c.jpg''] 5)
                   Map.empty)))
       = [''/d/a.jpg'', ''/d/b.jpg'', ''/d/c.jpg'']"
proof -
  have n: "(0::nat) < 5" by simp
  have e: "split_list_into_n_chunks
      [''/d/a.jpg'', ''/d/b.jpg'', ''/d/c.jpg'', ''/d/d.jpg'', ''/d/e.jpg'', ''/d/f.jpg'',
       ''/d/g.jpg''] 2
     = [[''/d/a.jpg'', ''/d/b.jpg'', ''/d/c.jpg'', ''/d/d.jpg''],
        [''/d/e.jpg'', ''/d/f.jpg'', ''/d/g.jpg'']]"
    by code_simp
  from split_list_into_n_chunks_partition[OF n,
      of "[''/d/a.jpg'', ''/d/b.jpg'', ''/d/c.jpg'']" "''/j''" Map.empty] e
  show ?thesis by simp
qed

section \<open>Planning again from the persisted manifests\<close>

text \<open>
  C7. Suppose re-enumeration is not forced, and the job folder holds the manifests that
  the planning step wrote for the chunks of the enumerated list (at least one), and no
  other entry of the folder matches the chunk pattern. Then for every order in which
  the folder is listed, the cell loads the sorted union of those manifests, and that is
  the list the original enumeration produced; the file enumeration is not consulted.
  A listed chunk file that holds something other than a list makes the cell fail at its
  assert. (Every name the planning step writes matches the pattern: lemma
  \<open>chunk_pattern_match_chunk_name\<close>.)
\<close>

theorem rerun_loads_same_images:
  fixes c :: config
  shows
  "(\<not> force_enumeration c \<and> folder_chunks \<noteq> []
      \<and> mset (concat folder_chunks) = mset all_images \<and> sorted all_images
      \<and> (\<forall>i<length folder_chunks.
            d (path_join (filename_base c) (chunk_name i))
              = snd (write_file_lists (filename_base c) 0 folder_chunks d0)
                  (path_join (filename_base c) (chunk_name i)))
      \<and> distinct listing
      \<and> (\<forall>name. name \<in> set listing \<and> chunk_pattern_match name
                 \<longleftrightarrow> (\<exists>i<length folder_chunks. name = chunk_name i))
    \<longrightarrow> enumerate_files c listing d found = Inr all_images
        \<and> enumerate_files c listing d found
            = Inr (sort (concat (map (\<lambda>name. list_at d (path_join (filename_base c) name))
                                   (filter chunk_pattern_match listing)))))
   \<and> (\<not> force_enumeration c \<and> name \<in> set listing \<and> chunk_pattern_match name
      \<and> d' (path_join (filename_base c) name) = Some content \<and> (\<forall>l. content \<noteq> ImageList l)
      \<and> (\<forall>g\<in>set listing. d' (path_join (filename_base c) g) \<noteq> None)
    \<longrightarrow> enumerate_files c listing d' found = Inl AssertionError)"
proof (intro conjI impI)
  assume a: "\<not> force_enumeration c \<and> folder_chunks \<noteq> []
      \<and> mset (concat folder_chunks) = mset all_images \<and> sorted all_images
      \<and> (\<forall>i<length folder_chunks.
            d (path_join (filename_base c) (chunk_name i))
              = snd (write_file_lists (filename_base c) 0 folder_chunks d0)
                  (path_join (filename_base c) (chunk_name i)))
      \<and> distinct listing
      \<and> (\<forall>name. name \<in> set listing \<and> chunk_pattern_match name
                 \<longleftrightarrow> (\<exists>i<length folder_chunks. name = chunk_name i))"
  define base where "base = filename_base c"
  define fs where "fs = filter chunk_pattern_match listing"
  define names where "names = map chunk_name [0..<length folder_chunks]"
  from a have nf: "\<not> force_enumeration c" and ne: "folder_chunks \<noteq> []"
    and ms: "mset (concat folder_chunks) = mset all_images" and so: "sorted all_images"
    and d0: "\<And>i. i < length folder_chunks \<Longrightarrow>
            d (path_join base (chunk_name i))
              = snd (write_file_lists base 0 folder_chunks d0) (path_join base (chunk_name i))"
    and dl: "distinct listing"
    and li: "\<And>name. (name \<in> set listing \<and> chunk_pattern_match name)
                 = (\<exists>i<length folder_chunks. name = chunk_name i)"
    unfolding base_def by blast+
  have dfs: "distinct fs" using dl by (simp add: fs_def)
  have "set fs = set names"
  proof (rule set_eqI)
    fix x
    have "x \<in> set fs \<longleftrightarrow> x \<in> set listing \<and> chunk_pattern_match x"
      by (simp add: fs_def)
    also have "\<dots> \<longleftrightarrow> (\<exists>i<length folder_chunks. x = chunk_name i)" by (rule li)
    also have "\<dots> \<longleftrightarrow> x \<in> set names" by (auto simp: names_def)
    finally show "x \<in> set fs \<longleftrightarrow> x \<in> set names" .
  qed
  with dfs chunk_names_distinct[of "length folder_chunks"]
  have mfs: "mset fs = mset names"
    unfolding names_def using set_eq_iff_mset_eq_distinct by blast
  have d: "d (path_join base (chunk_name i)) = Some (ImageList (folder_chunks ! i))"
    if "i < length folder_chunks" for i
    using d0[OF that] write_file_lists_written[OF that, of base 0 d0] by simp
  have wl: "map (\<lambda>f. list_at d (path_join base f)) names = folder_chunks"
    unfolding names_def by (rule nth_equalityI) (simp_all add: list_at_def d)
  have all_lists: "\<forall>f\<in>set fs. \<exists>l. d (path_join base f) = Some (ImageList l)"
  proof
    fix f assume "f \<in> set fs"
    with \<open>set fs = set names\<close> obtain k where k: "k < length folder_chunks" "f = chunk_name k"
      by (auto simp: names_def)
    from d[OF k(1)] k(2)
    show "\<exists>l. d (path_join base f) = Some (ImageList l)" by simp
  qed
  have lc: "load_chunks base d fs [] = Inr (concat (map (\<lambda>f. list_at d (path_join base f)) fs))"
    using load_chunks_lists[OF all_lists, of "[]"] by simp
  have "mset (concat (map (\<lambda>f. list_at d (path_join base f)) fs))
      = mset (concat (map (\<lambda>f. list_at d (path_join base f)) names))"
    using mfs by (rule mset_concat_map_cong)
  also have "\<dots> = mset all_images" using wl ms by simp
  finally have "mset all_images = mset (concat (map (\<lambda>f. list_at d (path_join base f)) fs))"
    by simp
  from properties_for_sort[OF this so]
  have srt: "sort (concat (map (\<lambda>f. list_at d (path_join base f)) fs)) = all_images" .
  have "names \<noteq> []" using ne by (simp add: names_def)
  with \<open>set fs = set names\<close> have fne: "fs \<noteq> []" by auto
  have ef: "enumerate_files c listing d found
      = Inr (sort (concat (map (\<lambda>f. list_at d (path_join base f)) fs)))"
    using nf fne lc
    by (simp add: enumerate_files_def Let_def fs_def[symmetric] base_def[symmetric])
  with srt show "enumerate_files c listing d found = Inr all_images" by simp
  from ef show "enumerate_files c listing d found
            = Inr (sort (concat (map (\<lambda>name. list_at d (path_join (filename_base c) name))
                                   (filter chunk_pattern_match listing))))"
    by (simp add: fs_def base_def)
next
  assume b: "\<not> force_enumeration c \<and> name \<in> set listing \<and> chunk_pattern_match name
      \<and> d' (path_join (filename_base c) name) = Some content \<and> (\<forall>l. content \<noteq> ImageList l)
      \<and> (\<forall>g\<in>set listing. d' (path_join (filename_base c) g) \<noteq> None)"
  define fs where "fs = filter chunk_pattern_match listing"
  from b have in_fs: "name \<in> set fs" by (simp add: fs_def)
  from b have pres: "\<forall>g\<in>set fs. d' (path_join (filename_base c) g) \<noteq> None"
    by (simp add: fs_def)
  from b have "load_chunks (filename_base c) d' fs [] = Inl AssertionError"
    by (intro load_chunks_not_list[OF in_fs _ _ pres]) auto
  moreover have "fs \<noteq> []" using in_fs by auto
  ultimately show "enumerate_files c listing d' found = Inl AssertionError"
    using b by (simp add: enumerate_files_def Let_def fs_def[symmetric])
qed


theorem rerun_loads_same_images_witness:
  "enumerate_files ex_config
      [''chunk001.json'', ''run_chunk_000_gpu_00.sh'', ''chunk000.json'',
       ''chunk000_results.json'']
      (snd (write_file_lists ''/j'' 0 [[''/d/a.jpg'', ''/d/b.jpg''], [''/d/c.jpg'']] Map.empty))
      []
     = Inr [''/d/a.jpg'', ''/d/b.jpg'', ''/d/c.jpg'']
   \<and> enumerate_files ex_config [''chunk001.json'', ''chunk000.json'']
      [''/j/chunk000.json'' \<mapsto> ImageList [''/d/a.jpg'', ''/d/b.jpg''],
       ''/j/chunk001.json'' \<mapsto> OtherContent] []
     = Inl AssertionError"
proof -
  let ?listing = "[''chunk001.json'', ''run_chunk_000_gpu_00.sh'', ''chunk000.json'',
       ''chunk000_results.json'']"
  let ?chunks = "[[''/d/a.jpg'', ''/d/b.jpg''], [''/d/c.jpg'']]"
  let ?all = "[''/d/a.jpg'', ''/d/b.jpg'', ''/d/c.jpg'']"
  let ?d = "snd (write_file_lists ''/j'' 0 ?chunks Map.empty)"
  let ?d' = "[''/j/chunk000.json'' \<mapsto> ImageList [''/d/a.jpg'', ''/d/b.jpg''],
       ''/j/chunk001.json'' \<mapsto> OtherContent]"
  have cfg: "\<not> force_enumeration ex_config" "filename_base ex_config = ''/j''"
    by (simp_all add: ex_config_def default_config_def)
  have cn: "chunk_name 0 = ''chunk000.json''" "chunk_name (Suc 0) = ''chunk001.json''"
    by code_simp+
  have pm: "chunk_pattern_match ''chunk001.json''" "chunk_pattern_match ''chunk000.json''"
    "\<not> chunk_pattern_match ''run_chunk_000_gpu_00.sh''"
    "\<not> chunk_pattern_match ''chunk000_results.json''"
    by code_simp+
  have li: "\<forall>name. name \<in> set ?listing \<and> chunk_pattern_match name
                 \<longleftrightarrow> (\<exists>i<length ?chunks. name = chunk_name i)"
    using cn pm by (auto simp: less_Suc_eq)
  have so: "sorted ?all" by code_simp
  have h1: "\<not> force_enumeration ex_config \<and> ?chunks \<noteq> []
      \<and> mset (concat ?chunks) = mset ?all \<and> sorted ?all
      \<and> (\<forall>i<length ?chunks.
            ?d (path_join (filename_base ex_config) (chunk_name i))
              = snd (write_file_lists (filename_base ex_config) 0 ?chunks Map.empty)
                  (path_join (filename_base ex_config) (chunk_name i)))
      \<and> distinct ?listing
      \<and> (\<forall>name. name \<in> set ?listing \<and> chunk_pattern_match name
                 \<longleftrightarrow> (\<exists>i<length ?chunks. name = chunk_name i))"
    using cfg so li by simp
  have h2: "\<not> force_enumeration ex_config \<and>
      ''chunk001.json'' \<in> set [''chunk001.json'', ''chunk000.json''] \<and>
      chunk_pattern_match ''chunk001.json'' \<and>
      ?d' (path_join (filename_base ex_config) ''chunk001.json'') = Some OtherContent \<and>
      (\<forall>l. OtherContent \<noteq> ImageList l) \<and>
      (\<forall>g\<in>set [''chunk001.json'', ''chunk000.json''].
          ?d' (path_join (filename_base ex_config) g) \<noteq> None)"
    using cfg pm by (simp add: path_join_def startswith_def endswith_def)
  from rerun_loads_same_images[where c = ex_config and folder_chunks = ?chunks
      and all_images = ?all and d = ?d and ?d0.0 = Map.empty and listing = ?listing
      and found = "[]"] h1
  have a: "enumerate_files ex_config ?listing ?d [] = Inr ?all" by blast
  from rerun_loads_same_images[where c = ex_config and listing = "[''chunk001.json'', ''chunk000.json'']"
      and name = "''chunk001.json''" and d' = ?d' and content = OtherContent and found = "[]"] h2
  have b: "enumerate_files ex_config [''chunk001.json'', ''chunk000.json''] ?d' []
     = Inl AssertionError" by blast
  from a b show ?thesis by blast
qed

end
